theory Spec2Isabelle
  imports Complex_Main "HOL-Library.Char_ord"
begin

section \<open>Errors\<close>

text \<open>
  Everything the program can throw. \<open>json_exception\<close> is the program's own exception
  type and carries its message. The lexer's last branch builds its message as a pointer
  into a string literal, at an offset given by the offending character; when that offset
  lies outside the literal the message is indeterminate (\<open>json_exception_stray\<close>).
  \<open>std_invalid_argument\<close> and \<open>std_out_of_range\<close> are the two exceptions of the library's
  text-to-double conversion. \<open>std_bad_alloc\<close> is the library's exception for a text that
  cannot grow any more (\<open>std::bad_alloc\<close> when the free store is exhausted,
  \<open>std::length_error\<close> when the limit of \<open>std::string\<close> comes first).
  \<open>undefined_behaviour\<close> stands for a dereference of a null or released pointer: it is no
  exception, and no result below relies on what follows it.
\<close>

datatype error =
    json_exception string
  | json_exception_stray
  | std_invalid_argument
  | std_out_of_range
  | std_bad_alloc
  | undefined_behaviour

fun is_json_exception :: "error \<Rightarrow> bool" where
  "is_json_exception (json_exception m) = True"
| "is_json_exception json_exception_stray = True"
| "is_json_exception std_invalid_argument = False"
| "is_json_exception std_out_of_range = False"
| "is_json_exception std_bad_alloc = False"
| "is_json_exception undefined_behaviour = False"

section \<open>The character stream\<close>

text \<open>
  The lexer reads from a \<open>std::istream\<close>. The model is an in-memory, seekable stream:
  the characters from the read position on, the \<open>skipws\<close> format flag (set on every
  stream unless the caller clears it) and the two state bits the lexer can meet.
\<close>

record istream =
  buf :: string
  skipws :: bool
  eofbit :: bool
  failbit :: bool

definition good :: "istream \<Rightarrow> bool" where
  "good s = (\<not> eofbit s \<and> \<not> failbit s)"

text \<open>The classic locale's white space: space, and the control characters 9 to 13.\<close>

definition isspace :: "char \<Rightarrow> bool" where
  "isspace c = (c = CHR 0x20 \<or> c = CHR 0x09 \<or> c = CHR 0x0A \<or> c = CHR 0x0B
                \<or> c = CHR 0x0C \<or> c = CHR 0x0D)"

text \<open>
  The sentry every input operation starts with. On a stream that is not good it sets
  \<open>failbit\<close>. A formatted operation (\<open>noskip = False\<close>) on a stream with \<open>skipws\<close> first
  discards white space, and fails with both bits when that reaches the end.
\<close>

definition sentry :: "bool \<Rightarrow> istream \<Rightarrow> bool \<times> istream" where
  "sentry noskip s =
     (if \<not> good s then (False, s\<lparr>failbit := True\<rparr>)
      else if \<not> noskip \<and> skipws s then
        (let r = dropWhile isspace (buf s) in
         if r = [] then (False, s\<lparr>buf := [], eofbit := True, failbit := True\<rparr>)
         else (True, s\<lparr>buf := r\<rparr>))
      else (True, s))"

text \<open>\<open>is >> c\<close>: formatted extraction of one character; \<open>None\<close> when it fails.\<close>

definition extract_char :: "istream \<Rightarrow> char option \<times> istream" where
  "extract_char s =
     (case sentry False s of
        (False, s1) \<Rightarrow> (None, s1)
      | (True, s1) \<Rightarrow>
          (case buf s1 of
             [] \<Rightarrow> (None, s1\<lparr>eofbit := True, failbit := True\<rparr>)
           | c # r \<Rightarrow> (Some c, s1\<lparr>buf := r\<rparr>)))"

text \<open>\<open>is.get(c)\<close>: unformatted extraction of one character.\<close>

definition get :: "istream \<Rightarrow> char option \<times> istream" where
  "get s =
     (case sentry True s of
        (False, s1) \<Rightarrow> (None, s1)
      | (True, s1) \<Rightarrow>
          (case buf s1 of
             [] \<Rightarrow> (None, s1\<lparr>eofbit := True, failbit := True\<rparr>)
           | c # r \<Rightarrow> (Some c, s1\<lparr>buf := r\<rparr>)))"

text \<open>\<open>is.peek()\<close>: the next character, not extracted; \<open>None\<close> is the end-of-file value.\<close>

definition peek :: "istream \<Rightarrow> char option \<times> istream" where
  "peek s =
     (case sentry True s of
        (False, s1) \<Rightarrow> (None, s1)
      | (True, s1) \<Rightarrow>
          (case buf s1 of
             [] \<Rightarrow> (None, s1\<lparr>eofbit := True\<rparr>)
           | c # r \<Rightarrow> (Some c, s1)))"

text \<open>
  \<open>is.get(buffer, n)\<close>: at most \<open>n - 1\<close> characters, stopping before a newline, which
  stays in the stream. \<open>eofbit\<close> is set when the end is reached, \<open>failbit\<close> when nothing
  was stored.
\<close>

definition get_n :: "nat \<Rightarrow> istream \<Rightarrow> string \<times> istream" where
  "get_n n s =
     (case sentry True s of
        (False, s1) \<Rightarrow> ([], s1)
      | (True, s1) \<Rightarrow>
          (let chunk = takeWhile (\<lambda>c. c \<noteq> CHR 0x0A) (take (n - 1) (buf s1));
               r = drop (length chunk) (buf s1)
           in (chunk, s1\<lparr>buf := r, eofbit := (r = []), failbit := (chunk = [])\<rparr>)))"

text \<open>
  \<open>is.seekg(n, std::ios_base::cur)\<close>: clears \<open>eofbit\<close>, then moves the read position
  forward by \<open>n\<close>; a position past the end is refused and sets \<open>failbit\<close>.
\<close>

definition seekg_cur :: "nat \<Rightarrow> istream \<Rightarrow> istream" where
  "seekg_cur n s =
     (let s1 = s\<lparr>eofbit := False\<rparr> in
      if failbit s1 then s1
      else if n \<le> length (buf s1) then s1\<lparr>buf := drop n (buf s1)\<rparr>
      else s1\<lparr>failbit := True\<rparr>)"

section \<open>Tokens and the tokenizer\<close>

datatype TOKEN =
    GRAFFA_APERTA | GRAFFA_CHIUSA | DUE_PUNTI | STRING | NUMBER
  | QUADRA_APERTA | QUADRA_CHIUSA | VIRGOLA | BOOLEAN | NULLO | FINE_INPUT

record Token =
  tok_value :: string
  tok_type :: TOKEN

record Tokenizer =
  inp :: istream
  curr_char :: char

text \<open>
  The tokenizer holds the stream and the current character (its string member is never
  used and is left out). \<open>is >> curr_char\<close> and \<open>is.get(curr_char)\<close>: a failed read leaves
  \<open>curr_char\<close> as it was.
\<close>

definition read_curr :: "Tokenizer \<Rightarrow> bool \<times> Tokenizer" where
  "read_curr t =
     (case extract_char (inp t) of
        (None, s1) \<Rightarrow> (False, t\<lparr>inp := s1\<rparr>)
      | (Some c, s1) \<Rightarrow> (True, \<lparr>inp = s1, curr_char = c\<rparr>))"

definition get_curr :: "Tokenizer \<Rightarrow> Tokenizer" where
  "get_curr t =
     (case get (inp t) of
        (None, s1) \<Rightarrow> t\<lparr>inp := s1\<rparr>
      | (Some c, s1) \<Rightarrow> \<lparr>inp = s1, curr_char = c\<rparr>)"

lemma sentry_length: "length (buf (snd (sentry n s))) \<le> length (buf s)"
  by (simp add: sentry_def Let_def length_dropWhile_le)

lemma extract_char_shorter:
  assumes "extract_char s = (Some c, s1)"
  shows "length (buf s1) < length (buf s)"
proof -
  obtain ok s0 where s0: "sentry False s = (ok, s0)" by (cases "sentry False s")
  have "length (buf s0) \<le> length (buf s)" using sentry_length [of False s] s0 by simp
  moreover have "length (buf s1) < length (buf s0)"
    using assms s0 by (auto simp: extract_char_def split: bool.splits list.splits)
  ultimately show ?thesis by simp
qed

lemma read_curr_shorter:
  "read_curr t = (True, t1) \<Longrightarrow> length (buf (inp t1)) < length (buf (inp t))"
  by (auto simp: read_curr_def split: prod.splits option.splits dest: extract_char_shorter)

text \<open>The lexer's own white-space loop: space and newline only.\<close>

function getWithoutWhiteSpace :: "Tokenizer \<Rightarrow> Tokenizer" where
  "getWithoutWhiteSpace t =
     (if curr_char t = CHR 0x20 \<or> curr_char t = CHR 0x0A then
        (case read_curr t of
           (True, t1) \<Rightarrow> getWithoutWhiteSpace t1
         | (False, t1) \<Rightarrow> t1)
      else t)"
  by pat_completeness auto
termination
  by (relation "measure (\<lambda>t. length (buf (inp t)))") (auto dest: read_curr_shorter [OF sym])

declare getWithoutWhiteSpace.simps [simp del]

text \<open>The characters a number token is made of.\<close>

definition numeric :: "char \<Rightarrow> bool" where
  "numeric c = (c = CHR ''-'' \<or> (CHR ''0'' \<le> c \<and> c \<le> CHR ''9'') \<or> c = CHR ''.'')"

text \<open>\<open>curr_char = is.peek()\<close>: the end-of-file value \<open>-1\<close> narrows to the character 255.\<close>

definition peek_char :: "char option \<Rightarrow> char" where
  "peek_char p = (case p of None \<Rightarrow> CHR 0xFF | Some c \<Rightarrow> c)"

lemma peek_buf: "buf (snd (peek s)) = buf s"
  by (simp add: peek_def sentry_def split: list.splits)

lemma peek_Some: "peek s = (Some c, s1) \<Longrightarrow> s1 = s \<and> good s \<and> buf s \<noteq> [] \<and> hd (buf s) = c"
  by (auto simp: peek_def sentry_def split: if_splits list.splits)

lemma get_good: "good s \<Longrightarrow> buf s = c # r \<Longrightarrow> get s = (Some c, s\<lparr>buf := r\<rparr>)"
  by (simp add: get_def sentry_def)

text \<open>
  The number loop. \<open>peek\<close> is called twice per round: once for the character, once for
  the test \<open>!is.peek()\<close>, which holds when the next character is the NUL character.
\<close>

function number_loop :: "Tokenizer \<Rightarrow> string \<Rightarrow> string \<times> Tokenizer" where
  "number_loop t v =
     (if numeric (curr_char t) then
        (case peek (inp t) of (p, s1) \<Rightarrow>
           (case peek s1 of (q, s2) \<Rightarrow>
              if q = Some (CHR 0x00) then (v, \<lparr>inp = s2, curr_char = peek_char p\<rparr>)
              else if numeric (peek_char p) then
                number_loop (get_curr \<lparr>inp = s2, curr_char = peek_char p\<rparr>) (v @ [peek_char p])
              else number_loop \<lparr>inp = s2, curr_char = peek_char p\<rparr> v))
      else (v, t))"
  by pat_completeness auto
termination
proof (relation "measure (\<lambda>(t, v). 2 * length (buf (inp t)) + (if numeric (curr_char t) then 1 else 0))",
       goal_cases)
  case 1
  show ?case by simp
next
  case (2 t v p s1 q s2)
  from \<open>numeric (peek_char p)\<close> obtain c where p: "p = Some c"
    by (cases p) (auto simp: peek_char_def numeric_def)
  from 2 p have pk: "peek (inp t) = (Some c, s1)" "peek s1 = (q, s2)" by simp_all
  then have a: "s1 = inp t" "good (inp t)" "buf (inp t) \<noteq> []" "hd (buf (inp t)) = c"
    using peek_Some [of "inp t" c s1] by auto
  then obtain r where r: "buf (inp t) = c # r" by (cases "buf (inp t)") auto
  from pk a r have "s2 = inp t" by (auto simp: peek_def sentry_def)
  then have "get_curr \<lparr>inp = s2, curr_char = peek_char p\<rparr> = \<lparr>inp = (inp t)\<lparr>buf := r\<rparr>, curr_char = c\<rparr>"
    using get_good [OF a(2) r] by (simp add: get_curr_def)
  then show ?case using r by simp
next
  case (3 t v p s1 q s2)
  from 3 have pk: "peek (inp t) = (p, s1)" "peek s1 = (q, s2)" by simp_all
  have "buf s2 = buf (inp t)"
    using pk peek_buf [of "inp t"] peek_buf [of s1] by simp
  then show ?case using 3 by simp
qed

declare number_loop.simps [simp del]

text \<open>
  The string loop, entered after the character behind the opening quote has been read
  with \<open>is.get(curr_char)\<close>. Nothing in it looks at the stream state: once the stream has
  ended, \<open>curr_char\<close> stays as it is and the loop appends it again and again. The free
  store is finite: \<open>cap\<close> is the number of characters the text of the token can hold,
  and \<open>token.value += curr_char\<close> on a text of that length throws. (The number loop
  appends only a character it has just found in the stream, so its text is never longer
  than the input.)
\<close>

function string_loop :: "nat \<Rightarrow> Tokenizer \<Rightarrow> string \<Rightarrow> error + string \<times> Tokenizer" where
  "string_loop cap t v =
     (if curr_char t \<noteq> CHR 0x22 then
        (if cap \<le> length v then Inl std_bad_alloc
         else string_loop cap (get_curr t) (v @ [curr_char t]))
      else Inr (v, t))"
  by pat_completeness auto
termination
  by (relation "measure (\<lambda>(cap, t, v). cap - length v)") auto

declare string_loop.simps [simp del]

text \<open>
  The message of the last branch, \<open>&"carattere non identificato: "[curr_char]\<close>: the
  literal from offset \<open>curr_char\<close> on. The literal has 28 characters and its terminator.
\<close>

definition unidentified :: "char \<Rightarrow> error" where
  "unidentified c =
     (if (of_char c :: nat) \<le> 28
      then json_exception (drop (of_char c) ''carattere non identificato: '')
      else json_exception_stray)"

text \<open>\<open>std::string data(buffer)\<close>: the buffer up to its first NUL character.\<close>

definition c_str :: "string \<Rightarrow> string" where
  "c_str b = takeWhile (\<lambda>c. c \<noteq> CHR 0x00) b"

text \<open>
  \<open>Tokenizer::get_token\<close>, with the capacity \<open>cap\<close> of the free store. The result is
  \<open>Inl e\<close> when the call throws \<open>e\<close>, and otherwise the token with the tokenizer after it.
  The lines the program prints to standard output before it throws are left out.
  \<open>token_at\<close> is the chain of tests on \<open>curr_char\<close> that follows the two reading steps.
\<close>

definition token_at :: "nat \<Rightarrow> Tokenizer \<Rightarrow> error + Token \<times> Tokenizer" where
  "token_at cap t =
     (if curr_char t = CHR 0x22 then
        (case string_loop cap (get_curr t) [] of
           Inl e \<Rightarrow> Inl e
         | Inr (v, t') \<Rightarrow> Inr (\<lparr>tok_value = v, tok_type = STRING\<rparr>, t'))
      else if curr_char t = CHR ''{'' then
        Inr (\<lparr>tok_value = [], tok_type = GRAFFA_APERTA\<rparr>, t)
      else if curr_char t = CHR ''}'' then
        Inr (\<lparr>tok_value = [], tok_type = GRAFFA_CHIUSA\<rparr>, t)
      else if curr_char t = CHR ''-'' \<or> (CHR ''0'' \<le> curr_char t \<and> curr_char t \<le> CHR ''9'') then
        (case number_loop t [curr_char t] of
           (v, t') \<Rightarrow> Inr (\<lparr>tok_value = v, tok_type = NUMBER\<rparr>, t'))
      else if curr_char t = CHR ''f'' then
        (case get_n 5 (inp t) of
           (b, s1) \<Rightarrow>
             if c_str b \<noteq> ''alse'' then Inl (json_exception ''boolean not valid'')
             else Inr (\<lparr>tok_value = ''False'', tok_type = BOOLEAN\<rparr>, t\<lparr>inp := s1\<rparr>))
      else if curr_char t = CHR ''t'' then
        (case get_n 4 (inp t) of
           (b, s1) \<Rightarrow>
             if c_str b \<noteq> ''rue'' then Inl (json_exception ''boolean not valid'')
             else Inr (\<lparr>tok_value = ''True'', tok_type = BOOLEAN\<rparr>, t\<lparr>inp := s1\<rparr>))
      else if curr_char t = CHR ''n'' then
        Inr (\<lparr>tok_value = [], tok_type = NULLO\<rparr>, t\<lparr>inp := seekg_cur 3 (inp t)\<rparr>)
      else if curr_char t = CHR ''['' then
        Inr (\<lparr>tok_value = [], tok_type = QUADRA_APERTA\<rparr>, t)
      else if curr_char t = CHR '']'' then
        Inr (\<lparr>tok_value = [], tok_type = QUADRA_CHIUSA\<rparr>, t)
      else if curr_char t = CHR '':'' then
        Inr (\<lparr>tok_value = [], tok_type = DUE_PUNTI\<rparr>, t)
      else if curr_char t = CHR '','' then
        Inr (\<lparr>tok_value = [], tok_type = VIRGOLA\<rparr>, t)
      else Inl (unidentified (curr_char t)))"

definition get_token :: "nat \<Rightarrow> Tokenizer \<Rightarrow> error + Token \<times> Tokenizer" where
  "get_token cap t0 =
     (case read_curr t0 of
        (False, t1) \<Rightarrow> Inr (\<lparr>tok_value = [], tok_type = FINE_INPUT\<rparr>, t1)
      | (True, t1) \<Rightarrow>
          token_at cap (if curr_char t1 = CHR 0x20 \<or> curr_char t1 = CHR 0x0A
                        then getWithoutWhiteSpace t1 else t1))"

text \<open>A stream over a text, as \<open>std::istringstream\<close> makes it, and a tokenizer on it.\<close>

definition istream_of :: "string \<Rightarrow> istream" where
  "istream_of txt = \<lparr>buf = txt, skipws = True, eofbit = False, failbit = False\<rparr>"

definition Tokenizer_on :: "istream \<Rightarrow> Tokenizer" where
  "Tokenizer_on s = \<lparr>inp = s, curr_char = CHR 0x20\<rparr>"

text \<open>
  What the two reading steps of \<open>get_token\<close> pass over on a stream, and where they stop:
  with \<open>skipws\<close> the formatted read discards all white space; without it the lexer's own
  loop discards spaces and newlines.
\<close>

definition skipped :: "istream \<Rightarrow> string \<Rightarrow> bool" where
  "skipped s ws =
     (if skipws s then (\<forall>c \<in> set ws. isspace c)
      else (\<forall>c \<in> set ws. c = CHR 0x20 \<or> c = CHR 0x0A))"

definition stops :: "istream \<Rightarrow> char \<Rightarrow> bool" where
  "stops s c = (if skipws s then \<not> isspace c else c \<noteq> CHR 0x20 \<and> c \<noteq> CHR 0x0A)"

section \<open>The value\<close>

text \<open>
  \<open>json::impl\<close> holds five raw pointers, one per variant, and a variant counts as active
  when its pointer is not null. A pointer field is null, points to a live payload, or
  still holds the address of a payload that has been released: \<open>delete p\<close> frees the
  payload and leaves \<open>p\<close> as it is. The generic list of the program is a HOL list:
  \<open>push_front\<close> is \<open>#\<close>, \<open>push_back v\<close> is \<open>@ [v]\<close>, and an iterator is the sequence of the
  nodes from its position on. The payload of a number is the real number denoted by the
  text it was read from; the rounding of \<open>double\<close> is not part of the model.
\<close>

datatype 'a ptr = Null | Live 'a | Dangling

datatype json =
  Impl (impl_number: "real ptr") (impl_b: "bool ptr") (impl_s: "string ptr")
       (impl_l: "json list ptr") (impl_dict: "(string \<times> json) list ptr")

text \<open>\<open>delete p\<close> for a pointer that is not null. Releasing twice is undefined in C++; the
  field itself is not changed by it.\<close>

fun delete_p :: "'a ptr \<Rightarrow> 'a ptr" where
  "delete_p Null = Null"
| "delete_p (Live x) = Dangling"
| "delete_p Dangling = Dangling"

text \<open>Reading through a pointer.\<close>

fun deref :: "'a ptr \<Rightarrow> error + 'a" where
  "deref Null = Inl undefined_behaviour"
| "deref (Live x) = Inr x"
| "deref Dangling = Inl undefined_behaviour"

definition is_list :: "json \<Rightarrow> bool" where
  "is_list j = (impl_l j \<noteq> Null)"

definition is_dictionary :: "json \<Rightarrow> bool" where
  "is_dictionary j = (impl_dict j \<noteq> Null)"

definition is_string :: "json \<Rightarrow> bool" where
  "is_string j = (impl_s j \<noteq> Null)"

definition is_number :: "json \<Rightarrow> bool" where
  "is_number j = (impl_number j \<noteq> Null)"

definition is_bool :: "json \<Rightarrow> bool" where
  "is_bool j = (impl_b j \<noteq> Null)"

definition is_null :: "json \<Rightarrow> bool" where
  "is_null j = (\<not> is_list j \<and> \<not> is_dictionary j \<and> \<not> is_string j \<and> \<not> is_number j \<and> \<not> is_bool j)"

text \<open>\<open>json::json()\<close>: all five pointers null.\<close>

definition json_new :: json where
  "json_new = Impl Null Null Null Null Null"

text \<open>\<open>impl::clear\<close>: releases the first payload found, in the order of the fields.\<close>

fun clear :: "json \<Rightarrow> json" where
  "clear (Impl n b s l d) =
     (if n \<noteq> Null then Impl (delete_p n) b s l d
      else if b \<noteq> Null then Impl n (delete_p b) s l d
      else if s \<noteq> Null then Impl n b (delete_p s) l d
      else if l \<noteq> Null then Impl n b s (delete_p l) d
      else if d \<noteq> Null then Impl n b s l (delete_p d)
      else Impl n b s l d)"

text \<open>The chain of tests every setter starts with: number, list, bool, dictionary,
  string.\<close>

definition release :: "json \<Rightarrow> json" where
  "release j =
     (if is_number j then Impl (delete_p (impl_number j)) (impl_b j) (impl_s j) (impl_l j) (impl_dict j)
      else if is_list j then Impl (impl_number j) (impl_b j) (impl_s j) (delete_p (impl_l j)) (impl_dict j)
      else if is_bool j then Impl (impl_number j) (delete_p (impl_b j)) (impl_s j) (impl_l j) (impl_dict j)
      else if is_dictionary j then Impl (impl_number j) (impl_b j) (impl_s j) (impl_l j) (delete_p (impl_dict j))
      else if is_string j then Impl (impl_number j) (impl_b j) (delete_p (impl_s j)) (impl_l j) (impl_dict j)
      else j)"

definition set_string :: "string \<Rightarrow> json \<Rightarrow> json" where
  "set_string x j =
     (let r = release j in Impl (impl_number r) (impl_b r) (Live x) (impl_l r) (impl_dict r))"

definition set_bool :: "bool \<Rightarrow> json \<Rightarrow> json" where
  "set_bool x j =
     (let r = release j in Impl (impl_number r) (Live x) (impl_s r) (impl_l r) (impl_dict r))"

definition set_number :: "real \<Rightarrow> json \<Rightarrow> json" where
  "set_number x j =
     (let r = release j in Impl (Live x) (impl_b r) (impl_s r) (impl_l r) (impl_dict r))"

definition set_null :: "json \<Rightarrow> json" where
  "set_null j = release j"

definition set_list :: "json \<Rightarrow> json" where
  "set_list j =
     (let r = release j in Impl (impl_number r) (impl_b r) (impl_s r) (Live []) (impl_dict r))"

definition set_dictionary :: "json \<Rightarrow> json" where
  "set_dictionary j =
     (let r = release j in Impl (impl_number r) (impl_b r) (impl_s r) (impl_l r) (Live []))"

text \<open>\<open>json::operator=(json&&)\<close>: \<open>clear\<close>, then every pointer of the source that is
  not null is taken over. The result is the assigned-to value.\<close>

definition move_assign :: "json \<Rightarrow> json \<Rightarrow> json" where
  "move_assign this j =
     (let r = clear this in
      Impl (if is_number j then impl_number j else impl_number r)
           (if is_bool j then impl_b j else impl_b r)
           (if is_string j then impl_s j else impl_s r)
           (if is_list j then impl_l j else impl_l r)
           (if is_dictionary j then impl_dict j else impl_dict r))"

text \<open>\<open>json::push_back\<close> and \<open>json::insert\<close>.\<close>

definition push_back :: "json \<Rightarrow> json \<Rightarrow> error + json" where
  "push_back x j =
     (if is_list j then
        (case deref (impl_l j) of
           Inl e \<Rightarrow> Inl e
         | Inr xs \<Rightarrow> Inr (Impl (impl_number j) (impl_b j) (impl_s j) (Live (xs @ [x])) (impl_dict j)))
      else Inl (json_exception ''this is not a list''))"

definition push_front :: "json \<Rightarrow> json \<Rightarrow> error + json" where
  "push_front x j =
     (if is_list j then
        (case deref (impl_l j) of
           Inl e \<Rightarrow> Inl e
         | Inr xs \<Rightarrow> Inr (Impl (impl_number j) (impl_b j) (impl_s j) (Live (x # xs)) (impl_dict j)))
      else Inl (json_exception ''this is not a list''))"

definition insert_member :: "string \<times> json \<Rightarrow> json \<Rightarrow> error + json" where
  "insert_member x j =
     (if is_dictionary j then
        (case deref (impl_dict j) of
           Inl e \<Rightarrow> Inl e
         | Inr d \<Rightarrow> Inr (Impl (impl_number j) (impl_b j) (impl_s j) (impl_l j) (Live (x # d))))
      else Inl (json_exception ''this is not a dictionary''))"

text \<open>The dictionary iterators. The two overloads on a mutable value test \<open>is_list\<close>.\<close>

definition begin_dictionary :: "json \<Rightarrow> error + (string \<times> json) list" where
  "begin_dictionary j =
     (if \<not> is_list j then Inl (json_exception ''this is not a list'')
      else deref (impl_dict j))"

definition end_dictionary :: "json \<Rightarrow> error + (string \<times> json) list" where
  "end_dictionary j =
     (if \<not> is_list j then Inl (json_exception ''this is not a list'')
      else (case deref (impl_dict j) of Inl e \<Rightarrow> Inl e | Inr d \<Rightarrow> Inr []))"

definition begin_dictionary_const :: "json \<Rightarrow> error + (string \<times> json) list" where
  "begin_dictionary_const j =
     (if \<not> is_dictionary j then Inl (json_exception ''this is not a dictionary'')
      else deref (impl_dict j))"

definition end_dictionary_const :: "json \<Rightarrow> error + (string \<times> json) list" where
  "end_dictionary_const j =
     (if \<not> is_dictionary j then Inl (json_exception ''this is not a dictionary'')
      else (case deref (impl_dict j) of Inl e \<Rightarrow> Inl e | Inr d \<Rightarrow> Inr []))"

text \<open>
  The loop of both keyed lookups: the position of the first member whose key is equal to
  the one asked for.
\<close>

fun first_index :: "string \<Rightarrow> (string \<times> json) list \<Rightarrow> nat option" where
  "first_index k [] = None"
| "first_index k (m # ms) = (if fst m = k then Some 0 else map_option Suc (first_index k ms))"

text \<open>\<open>operator[]\<close> on a read-only value: the value of the member found.\<close>

definition index_const :: "string \<Rightarrow> json \<Rightarrow> error + json" where
  "index_const kiave j =
     (if \<not> is_dictionary j then Inl (json_exception ''this is not a dictionary'')
      else
        (case deref (impl_dict j) of
           Inl e \<Rightarrow> Inl e
         | Inr d \<Rightarrow>
             (case first_index kiave d of
                Some i \<Rightarrow> Inr (snd (d ! i))
              | None \<Rightarrow> Inl (json_exception ''non posso effettuare l'inserimento''))))"

text \<open>
  \<open>operator[]\<close> on a mutable value. It returns a reference into the member sequence: the
  model returns the value after the call and the position of the slot referred to.
\<close>

definition index_mutable :: "string \<Rightarrow> json \<Rightarrow> error + json \<times> nat" where
  "index_mutable kiave j =
     (if \<not> is_dictionary j then Inl (json_exception ''this is not a dictionary'')
      else
        (case deref (impl_dict j) of
           Inl e \<Rightarrow> Inl e
         | Inr d \<Rightarrow>
             (case first_index kiave d of
                Some i \<Rightarrow> Inr (j, i)
              | None \<Rightarrow>
                  Inr (Impl (impl_number j) (impl_b j) (impl_s j) (impl_l j)
                         (Live (d @ [(kiave, json_new)])),
                       length d))))"

section \<open>The parser\<close>

text \<open>
  \<open>std::stod\<close> on the text of a number token, which holds only the minus sign, digits
  and the point. The conversion reads the longest prefix that is a numeral: an optional
  sign, then digits with at most one point among them, at least one digit in all. Without
  such a prefix it throws \<open>std::invalid_argument\<close>. Otherwise the numeral \<open>p / q\<close> is rounded
  to the nearest \<open>double\<close>, ties to the even significand (\<open>to_double\<close>): 53 bits at the
  binary exponent of the value, or a multiple of \<open>2\<^sup>-\<^sup>1\<^sup>0\<^sup>7\<^sup>4\<close> below the normal range.
  \<open>std::out_of_range\<close> is thrown when the rounded value is beyond the largest \<open>double\<close>,
  and, as the C library under \<open>std::stod\<close> reports it, when the value is below the
  normal range and not exactly a \<open>double\<close>. The result is the real number the \<open>double\<close>
  stands for; the sign of a zero is not kept.
\<close>

definition is_digit :: "char \<Rightarrow> bool" where
  "is_digit c = (CHR ''0'' \<le> c \<and> c \<le> CHR ''9'')"

definition digits_val :: "string \<Rightarrow> int" where
  "digits_val ds = foldl (\<lambda>a c. 10 * a + (of_char c - 48)) 0 ds"

function bit_length :: "int \<Rightarrow> nat" where
  "bit_length n = (if n \<le> 0 then 0 else Suc (bit_length (n div 2)))"
  by pat_completeness auto
termination
  by (relation "measure nat") auto

declare bit_length.simps [simp del]

definition binexp :: "int \<Rightarrow> int \<Rightarrow> int" where
  "binexp p q =
     (let k = int (bit_length p) - int (bit_length q) in
      if (if 0 \<le> k then q * 2 ^ nat k \<le> p else q \<le> p * 2 ^ nat (- k)) then k else k - 1)"

definition round_half_even :: "int \<Rightarrow> int \<Rightarrow> int" where
  "round_half_even a b =
     (let d = a div b; r = a mod b in
      if 2 * r < b then d
      else if b < 2 * r then d + 1
      else if even d then d else d + 1)"

definition to_double :: "int \<Rightarrow> int \<Rightarrow> error + real" where
  "to_double p q =
     (if p = 0 then Inr 0
      else
        (let e = binexp p q in
         if e < - 1022 then
           (if p * 2 ^ 1076 < q * (2 ^ 54 - 1) \<and> (p * 2 ^ 1074) mod q \<noteq> 0 then Inl std_out_of_range
            else Inr (of_int (round_half_even (p * 2 ^ 1074) q) / 2 ^ 1074))
         else
           (let m = (if e \<le> 52 then round_half_even (p * 2 ^ nat (52 - e)) q
                     else round_half_even p (q * 2 ^ nat (e - 52)));
                v = (if e \<le> 52 then of_int m / 2 ^ nat (52 - e) else of_int m * 2 ^ nat (e - 52))
            in if 2 ^ 1024 \<le> v then Inl std_out_of_range else Inr v)))"

definition stod :: "string \<Rightarrow> error + real" where
  "stod txt =
     (let neg = (txt \<noteq> [] \<and> hd txt = CHR ''-'');
          body = (if neg then tl txt else txt);
          ip = takeWhile is_digit body;
          rest = dropWhile is_digit body;
          fp = (if rest \<noteq> [] \<and> hd rest = CHR ''.'' then takeWhile is_digit (tl rest) else [])
      in if ip = [] \<and> fp = [] then Inl std_invalid_argument
         else
           (case to_double (digits_val (ip @ fp)) (10 ^ length fp) of
              Inl e \<Rightarrow> Inl e
            | Inr v \<Rightarrow> Inr (if neg then - v else v)))"

definition get_json_string :: "Token \<Rightarrow> json" where
  "get_json_string t = set_string (tok_value t) json_new"

definition get_json_number :: "Token \<Rightarrow> error + json" where
  "get_json_number t =
     (case stod (tok_value t) of
        Inl e \<Rightarrow> Inl e
      | Inr x \<Rightarrow> Inr (set_number x json_new))"

definition get_json_boolean :: "Token \<Rightarrow> json" where
  "get_json_boolean t =
     (if tok_value t = ''True'' then set_bool True json_new else set_bool False json_new)"

definition get_json_null :: "Token \<Rightarrow> json" where
  "get_json_null t = set_null json_new"

text \<open>
  A call that may not return (\<open>None\<close>) or throw (\<open>Some (Inl e)\<close>), followed by the rest of
  the computation.
\<close>

definition and_then ::
  "(error + 'a) option \<Rightarrow> ('a \<Rightarrow> (error + 'b) option) \<Rightarrow> (error + 'b) option" where
  "and_then m f =
     Option.bind m (\<lambda>r. case r of Inl e \<Rightarrow> Some (Inl e) | Inr x \<Rightarrow> f x)"

lemma and_then_mono [partial_function_mono]:
  assumes "mono_option B" and "\<And>y. mono_option (\<lambda>f. C y f)"
  shows "mono_option (\<lambda>f. and_then (B f) (\<lambda>y. C y f))"
  unfolding and_then_def
proof (rule bind_mono [OF assms(1)])
  fix y
  show "mono_option (\<lambda>f. case y of Inl e \<Rightarrow> Some (Inl e) | Inr x \<Rightarrow> C x f)"
    by (cases y) (simp_all add: assms(2) option.const_mono)
qed

lemma and_then_simps [simp]:
  "and_then None f = None"
  "and_then (Some (Inl e)) f = Some (Inl e)"
  "and_then (Some (Inr x)) f = f x"
  by (simp_all add: and_then_def)

text \<open>
  The token types that start a value. The dictionary loop, the list loop and the document
  loop each repeat the same code for these six types, differing only in the function that
  builds the value.
\<close>

datatype value_kind = K_string | K_number | K_boolean | K_null | K_dictionary | K_list

fun kind_of :: "TOKEN \<Rightarrow> value_kind option" where
  "kind_of STRING = Some K_string"
| "kind_of NUMBER = Some K_number"
| "kind_of BOOLEAN = Some K_boolean"
| "kind_of NULLO = Some K_null"
| "kind_of GRAFFA_APERTA = Some K_dictionary"
| "kind_of QUADRA_APERTA = Some K_list"
| "kind_of GRAFFA_CHIUSA = None"
| "kind_of QUADRA_CHIUSA = None"
| "kind_of DUE_PUNTI = None"
| "kind_of VIRGOLA = None"
| "kind_of FINE_INPUT = None"

text \<open>
  The mutually recursive functions of the parser, as one partial function over the places
  a call can start at:
  \<^item> \<open>Call_dictionary\<close> and \<open>Call_list\<close>: \<open>get_json_dictionary(t)\<close> and \<open>get_json_list(t)\<close>;
  \<^item> \<open>Loop_dictionary j token sinistra b primo virgola\<close> and \<open>Loop_list j token virgola
    primo\<close>: their \<open>while\<close> loops at the test, with the local variables;
  \<^item> \<open>Value_of k token\<close>: the value built for a token of kind \<open>k\<close>;
  \<^item> \<open>Document rhs\<close>: the loop of \<open>operator>>\<close> with the value read so far.
  Each round of a loop is the body, which gives the new local variables or throws, and
  then \<open>token = t.get_token()\<close>.
\<close>

datatype call =
    Call_dictionary
  | Loop_dictionary json Token string bool bool bool
  | Call_list
  | Loop_list json Token bool bool
  | Value_of value_kind Token
  | Document json

partial_function (option) parse ::
  "nat \<Rightarrow> call \<Rightarrow> Tokenizer \<Rightarrow> (error + json \<times> Tokenizer) option" where
  "parse cap c t =
     (case c of
        Call_dictionary \<Rightarrow>
          and_then (Some (get_token cap t)) (\<lambda>(token, t1).
            parse cap (Loop_dictionary (set_dictionary json_new) token [] False True False) t1)
      | Loop_dictionary j token sinistra b primo virgola \<Rightarrow>
          if tok_type token \<noteq> GRAFFA_CHIUSA then
            and_then
              (case kind_of (tok_type token) of
                 Some k \<Rightarrow>
                   if sinistra = [] \<and> \<not> b then
                     Some (Inr ((j, tok_value token, b, primo, virgola), t))
                   else if sinistra \<noteq> [] \<and> b then
                     (if primo \<and> \<not> virgola then
                        and_then (parse cap (Value_of k token) t) (\<lambda>(v, t1).
                          case insert_member (sinistra, v) j of
                            Inl e \<Rightarrow> Some (Inl e)
                          | Inr j1 \<Rightarrow> Some (Inr ((j1, sinistra, False, False, virgola), t1)))
                      else if \<not> primo \<and> virgola then
                        and_then (parse cap (Value_of k token) t) (\<lambda>(v, t1).
                          case insert_member (sinistra, v) j of
                            Inl e \<Rightarrow> Some (Inl e)
                          | Inr j1 \<Rightarrow> Some (Inr ((j1, sinistra, False, primo, False), t1)))
                      else Some (Inl (json_exception ''problema virgola'')))
                   else Some (Inl (json_exception ''due punti mancanti''))
               | None \<Rightarrow>
                   if tok_type token = DUE_PUNTI then
                     (if sinistra \<noteq> [] \<and> \<not> b then Some (Inr ((j, sinistra, True, primo, virgola), t))
                      else Some (Inl (json_exception ''formato json non valido'')))
                   else if tok_type token = VIRGOLA then
                     (if \<not> virgola then Some (Inr ((j, [], False, primo, True), t))
                      else Some (Inl (json_exception ''hai ricevuto una virgola non necessaria'')))
                   else Some (Inl (json_exception ''formato json non valido'')))
              (\<lambda>((j', sinistra', b', primo', virgola'), t1).
                 and_then (Some (get_token cap t1)) (\<lambda>(token', t2).
                   parse cap (Loop_dictionary j' token' sinistra' b' primo' virgola') t2))
          else Some (Inr (j, t))
      | Call_list \<Rightarrow>
          and_then (Some (get_token cap t)) (\<lambda>(token, t1).
            parse cap (Loop_list (set_list json_new) token False True) t1)
      | Loop_list j token virgola primo \<Rightarrow>
          if tok_type token \<noteq> QUADRA_CHIUSA then
            and_then
              (case kind_of (tok_type token) of
                 Some k \<Rightarrow>
                   if primo \<and> \<not> virgola then
                     and_then (parse cap (Value_of k token) t) (\<lambda>(v, t1).
                       case push_back v j of
                         Inl e \<Rightarrow> Some (Inl e)
                       | Inr j1 \<Rightarrow> Some (Inr ((j1, virgola, False), t1)))
                   else if \<not> primo \<and> virgola then
                     and_then (parse cap (Value_of k token) t) (\<lambda>(v, t1).
                       case push_back v j of
                         Inl e \<Rightarrow> Some (Inl e)
                       | Inr j1 \<Rightarrow> Some (Inr ((j1, False, primo), t1)))
                   else Some (Inl (json_exception ''problema virgola''))
               | None \<Rightarrow>
                   if tok_type token = VIRGOLA then
                     (if \<not> virgola then Some (Inr ((j, True, primo), t))
                      else Some (Inl (json_exception ''hai ricevuto una virgola non necessaria'')))
                   else Some (Inl (json_exception ''formato json non valido'')))
              (\<lambda>((j', virgola', primo'), t1).
                 and_then (Some (get_token cap t1)) (\<lambda>(token', t2).
                   parse cap (Loop_list j' token' virgola' primo') t2))
          else Some (Inr (j, t))
      | Value_of k token \<Rightarrow>
          (case k of
             K_string \<Rightarrow> Some (Inr (get_json_string token, t))
           | K_number \<Rightarrow>
               (case get_json_number token of
                  Inl e \<Rightarrow> Some (Inl e)
                | Inr v \<Rightarrow> Some (Inr (v, t)))
           | K_boolean \<Rightarrow> Some (Inr (get_json_boolean token, t))
           | K_null \<Rightarrow> Some (Inr (get_json_null token, t))
           | K_dictionary \<Rightarrow> parse cap Call_dictionary t
           | K_list \<Rightarrow> parse cap Call_list t)
      | Document rhs \<Rightarrow>
          and_then (Some (get_token cap t)) (\<lambda>(token, t1).
            case kind_of (tok_type token) of
              Some k \<Rightarrow>
                and_then (parse cap (Value_of k token) t1) (\<lambda>(v, t2).
                  parse cap (Document (move_assign rhs v)) t2)
            | None \<Rightarrow>
                if tok_type token = FINE_INPUT then Some (Inr (rhs, t1))
                else Some (Inl (json_exception ''formato json non valiod''))))"

declare parse.simps [code]

definition get_json_dictionary :: "nat \<Rightarrow> Tokenizer \<Rightarrow> (error + json \<times> Tokenizer) option" where
  "get_json_dictionary cap t = parse cap Call_dictionary t"

definition get_json_list :: "nat \<Rightarrow> Tokenizer \<Rightarrow> (error + json \<times> Tokenizer) option" where
  "get_json_list cap t = parse cap Call_list t"

text \<open>
  \<open>operator>>(std::istream&, json&)\<close>: a tokenizer on the stream, then the document loop.
  The result is the value of \<open>rhs\<close> and the stream after the call.
\<close>

definition read_json :: "nat \<Rightarrow> istream \<Rightarrow> json \<Rightarrow> (error + json \<times> istream) option" where
  "read_json cap lhs rhs =
     and_then (parse cap (Document rhs) (Tokenizer_on lhs)) (\<lambda>(j, t). Some (Inr (j, inp t)))"

section \<open>The serializer\<close>

text \<open>
  \<open>operator<<(std::ostream&, json const&)\<close>: the text written. The library's rendering of
  a \<open>double\<close> is a parameter. A list is written as \<open>[ \<close>, every element followed by a comma
  and a space, and \<open>] \<close>; a dictionary likewise between braces, with \<open>key:value\<close> members;
  a string as its raw characters.
\<close>

fun write_json :: "(real \<Rightarrow> string) \<Rightarrow> json \<Rightarrow> error + string"
  and write_elements :: "(real \<Rightarrow> string) \<Rightarrow> json list \<Rightarrow> error + string"
  and write_members :: "(real \<Rightarrow> string) \<Rightarrow> (string \<times> json) list \<Rightarrow> error + string"
where
  "write_json fmt (Impl n b s l d) =
     (if n \<noteq> Null then
        (case deref n of Inl e \<Rightarrow> Inl e | Inr x \<Rightarrow> Inr (fmt x))
      else if l \<noteq> Null then
        (case l of
           Live xs \<Rightarrow>
             (case write_elements fmt xs of
                Inl e \<Rightarrow> Inl e
              | Inr r \<Rightarrow> Inr (''[ '' @ r @ ''] ''))
         | _ \<Rightarrow> Inl undefined_behaviour)
      else if d \<noteq> Null then
        (case d of
           Live ms \<Rightarrow>
             (case write_members fmt ms of
                Inl e \<Rightarrow> Inl e
              | Inr r \<Rightarrow> Inr (''{ '' @ r @ ''} ''))
         | _ \<Rightarrow> Inl undefined_behaviour)
      else if s \<noteq> Null then deref s
      else if b \<noteq> Null then
        (case deref b of Inl e \<Rightarrow> Inl e | Inr x \<Rightarrow> Inr (if x then ''true'' else ''false''))
      else Inr ''null'')"
| "write_elements fmt [] = Inr []"
| "write_elements fmt (x # xs) =
     (case write_json fmt x of
        Inl e \<Rightarrow> Inl e
      | Inr r \<Rightarrow>
          (case write_elements fmt xs of
             Inl e \<Rightarrow> Inl e
           | Inr rs \<Rightarrow> Inr (r @ '', '' @ rs)))"
| "write_members fmt [] = Inr []"
| "write_members fmt (m # ms) =
     (case write_json fmt (snd m) of
        Inl e \<Rightarrow> Inl e
      | Inr r \<Rightarrow>
          (case write_members fmt ms of
             Inl e \<Rightarrow> Inl e
           | Inr rs \<Rightarrow> Inr (fst m @ '':'' @ r @ '', '' @ rs)))"

text \<open>Writing a value and reading the text back into a fresh value.\<close>

definition round_trip :: "nat \<Rightarrow> (real \<Rightarrow> string) \<Rightarrow> json \<Rightarrow> (error + json) option" where
  "round_trip cap fmt v =
     (case write_json fmt v of
        Inl e \<Rightarrow> Some (Inl e)
      | Inr txt \<Rightarrow> and_then (read_json cap (istream_of txt) json_new) (\<lambda>(j, s'). Some (Inr j)))"

text \<open>
  A rendering for the examples: the integers from 0 to 9 are written by \<open>operator<<\<close> as
  their one digit.
\<close>

definition one_digit :: "real \<Rightarrow> string" where
  "one_digit x = [''0123456789'' ! (nat \<lfloor>x\<rfloor> mod 10)]"

section \<open>The texts of numbers, of dictionaries of numbers and of nested values\<close>

text \<open>The texts that the lexer takes as one number token.\<close>

definition number_text :: "string \<Rightarrow> bool" where
  "number_text ds =
     (ds \<noteq> [] \<and> (hd ds = CHR ''-'' \<or> is_digit (hd ds)) \<and> (\<forall>c \<in> set ds. numeric c))"






text \<open>
  The places in front of a value: a list that opens, or a dictionary that opens with a key
  and a colon.
\<close>

datatype frame = In_list | In_dictionary string

fun frame_text :: "frame \<Rightarrow> string" where
  "frame_text In_list = [CHR ''['']"
| "frame_text (In_dictionary k) = CHR ''{'' # CHR 0x22 # k @ [CHR 0x22, CHR '':'']"

fun frame_ok :: "nat \<Rightarrow> frame \<Rightarrow> bool" where
  "frame_ok cap In_list = True"
| "frame_ok cap (In_dictionary k) = (k \<noteq> [] \<and> CHR 0x22 \<notin> set k \<and> length k \<le> cap)"

definition frames_text :: "frame list \<Rightarrow> string" where
  "frames_text fs = concat (map frame_text fs)"

text \<open>What can follow the text of a number token: the end, or a character that is not
  taken into the token.\<close>

definition delimited :: "string \<Rightarrow> bool" where
  "delimited r = (case r of [] \<Rightarrow> True | c # r' \<Rightarrow> \<not> numeric c \<and> c \<noteq> CHR 0x00)"

section \<open>Facts about the lexer\<close>

lemma read_curr_raw:
  "good s \<Longrightarrow> \<not> skipws s \<Longrightarrow> buf s = c # r \<Longrightarrow>
   read_curr \<lparr>inp = s, curr_char = cc\<rparr> = (True, \<lparr>inp = s\<lparr>buf := r\<rparr>, curr_char = c\<rparr>)"
  by (simp add: read_curr_def extract_char_def sentry_def)

lemma getWithoutWhiteSpace_raw:
  assumes "good s" "\<not> skipws s"
  shows "\<forall>c \<in> set ws. c = CHR 0x20 \<or> c = CHR 0x0A \<Longrightarrow> c \<noteq> CHR 0x20 \<and> c \<noteq> CHR 0x0A \<Longrightarrow>
     w = CHR 0x20 \<or> w = CHR 0x0A \<Longrightarrow>
     getWithoutWhiteSpace \<lparr>inp = s\<lparr>buf := ws @ c # r\<rparr>, curr_char = w\<rparr>
       = \<lparr>inp = s\<lparr>buf := r\<rparr>, curr_char = c\<rparr>"
proof (induction ws arbitrary: w)
  case Nil
  have g: "good (s\<lparr>buf := c # r\<rparr>)" "\<not> skipws (s\<lparr>buf := c # r\<rparr>)"
    using assms by (simp_all add: good_def)
  show ?case
    using Nil read_curr_raw [OF g, of c r w]
    by (simp add: getWithoutWhiteSpace.simps [of "\<lparr>inp = s\<lparr>buf := c # r\<rparr>, curr_char = w\<rparr>"]
        getWithoutWhiteSpace.simps [of "\<lparr>inp = s\<lparr>buf := r\<rparr>, curr_char = c\<rparr>"])
next
  case (Cons a ws)
  have g: "good (s\<lparr>buf := (a # ws) @ c # r\<rparr>)" "\<not> skipws (s\<lparr>buf := (a # ws) @ c # r\<rparr>)"
    using assms by (simp_all add: good_def)
  have a: "a = CHR 0x20 \<or> a = CHR 0x0A" using Cons.prems by simp
  show ?case
    using Cons.prems a Cons.IH [of a] read_curr_raw [OF g, of a "ws @ c # r" w]
    by (simp add: getWithoutWhiteSpace.simps [of "\<lparr>inp = s\<lparr>buf := a # ws @ c # r\<rparr>, curr_char = w\<rparr>"])
qed

lemma read_curr_skipws:
  assumes "good s" "skipws s" "\<forall>c \<in> set ws. isspace c" "\<not> isspace c" "buf s = ws @ c # r"
  shows "read_curr \<lparr>inp = s, curr_char = cc\<rparr> = (True, \<lparr>inp = s\<lparr>buf := r\<rparr>, curr_char = c\<rparr>)"
proof -
  have "dropWhile isspace (ws @ c # r) = c # r"
    using assms(3,4) by (simp add: dropWhile_append3)
  then show ?thesis using assms by (simp add: read_curr_def extract_char_def sentry_def)
qed

lemma isspace_sp: "\<not> isspace c \<Longrightarrow> c \<noteq> CHR 0x20 \<and> c \<noteq> CHR 0x0A"
  by (auto simp: isspace_def)

lemma get_token_skip:
  assumes "good s" "skipped s ws" "stops s c" "buf s = ws @ c # r"
  shows "get_token cap \<lparr>inp = s, curr_char = cc\<rparr> = token_at cap \<lparr>inp = s\<lparr>buf := r\<rparr>, curr_char = c\<rparr>"
proof (cases "skipws s")
  case True
  then show ?thesis
    using assms read_curr_skipws [of s ws c r cc] isspace_sp [of c]
    by (simp add: get_token_def skipped_def stops_def)
next
  case False
  note ns = this
  show ?thesis
  proof (cases ws)
    case Nil
    then show ?thesis
      using assms ns read_curr_raw [of s c r cc]
      by (simp add: get_token_def skipped_def stops_def)
  next
    case (Cons a ws')
    have a: "a = CHR 0x20 \<or> a = CHR 0x0A" "\<forall>c \<in> set ws'. c = CHR 0x20 \<or> c = CHR 0x0A"
      using assms(2) ns Cons by (simp_all add: skipped_def)
    have c: "c \<noteq> CHR 0x20 \<and> c \<noteq> CHR 0x0A" using assms(3) ns by (simp add: stops_def)
    have g: "good (s\<lparr>buf := ws' @ c # r\<rparr>)" "\<not> skipws (s\<lparr>buf := ws' @ c # r\<rparr>)"
      using assms(1) ns by (simp_all add: good_def)
    have "getWithoutWhiteSpace \<lparr>inp = s\<lparr>buf := ws' @ c # r\<rparr>, curr_char = a\<rparr>
            = \<lparr>inp = s\<lparr>buf := r\<rparr>, curr_char = c\<rparr>"
      using getWithoutWhiteSpace_raw [OF assms(1) ns a(2) c a(1), of r] by simp
    then show ?thesis
      using assms ns Cons a read_curr_raw [of s a "ws' @ c # r" cc]
      by (auto simp add: get_token_def)
  qed
qed

lemma get_curr_chars:
  "curr_char (get_curr t) = curr_char t \<or> curr_char (get_curr t) \<in> set (buf (inp t))"
  "set (buf (inp (get_curr t))) \<subseteq> set (buf (inp t))"
  by (auto simp: get_curr_def get_def sentry_def split: list.splits if_splits)

lemma string_loop_stuck:
  "curr_char t \<noteq> CHR 0x22 \<Longrightarrow> CHR 0x22 \<notin> set (buf (inp t)) \<Longrightarrow>
   string_loop cap t v = Inl std_bad_alloc"
proof (induction cap t v rule: string_loop.induct)
  case (1 cap t v)
  show ?case
  proof (cases "cap \<le> length v")
    case True
    then show ?thesis using "1.prems"(1) by (subst string_loop.simps) simp
  next
    case False
    have "curr_char (get_curr t) \<noteq> CHR 0x22" "CHR 0x22 \<notin> set (buf (inp (get_curr t)))"
      using "1.prems" get_curr_chars [of t] by auto
    then have "string_loop cap (get_curr t) (v @ [curr_char t]) = Inl std_bad_alloc"
      using "1.IH" "1.prems"(1) False by simp
    then show ?thesis using "1.prems"(1) False by (subst string_loop.simps) simp
  qed
qed

lemma get_curr_good:
  "good s \<Longrightarrow> get_curr \<lparr>inp = s\<lparr>buf := a # r\<rparr>, curr_char = c\<rparr> = \<lparr>inp = s\<lparr>buf := r\<rparr>, curr_char = a\<rparr>"
  by (simp add: get_curr_def get_def sentry_def good_def)

lemma string_loop_closed:
  assumes "good s"
  shows "CHR 0x22 \<notin> set k \<Longrightarrow> c \<noteq> CHR 0x22 \<Longrightarrow> length v + Suc (length k) \<le> cap \<Longrightarrow>
     string_loop cap \<lparr>inp = s\<lparr>buf := k @ CHR 0x22 # r\<rparr>, curr_char = c\<rparr> v
       = Inr (v @ c # k, \<lparr>inp = s\<lparr>buf := r\<rparr>, curr_char = CHR 0x22\<rparr>)"
proof (induction k arbitrary: c v)
  case Nil
  have e: "string_loop cap \<lparr>inp = s\<lparr>buf := r\<rparr>, curr_char = CHR 0x22\<rparr> (v @ [c])
             = Inr (v @ [c], \<lparr>inp = s\<lparr>buf := r\<rparr>, curr_char = CHR 0x22\<rparr>)"
    by (subst string_loop.simps) simp
  show ?case
    using Nil get_curr_good [OF assms, of "CHR 0x22" r c] e
    by (subst string_loop.simps) simp
next
  case (Cons a k)
  have "string_loop cap \<lparr>inp = s\<lparr>buf := k @ CHR 0x22 # r\<rparr>, curr_char = a\<rparr> (v @ [c])
          = Inr ((v @ [c]) @ a # k, \<lparr>inp = s\<lparr>buf := r\<rparr>, curr_char = CHR 0x22\<rparr>)"
    using Cons.prems by (intro Cons.IH) auto
  then show ?case
    using Cons.prems get_curr_good [OF assms, of a "k @ CHR 0x22 # r" c]
    by (subst string_loop.simps) simp
qed

lemma token_at_string:
  assumes "good s" and "CHR 0x22 \<notin> set k" and "length k \<le> cap"
  shows "token_at cap \<lparr>inp = s\<lparr>buf := k @ CHR 0x22 # r\<rparr>, curr_char = CHR 0x22\<rparr>
           = Inr (\<lparr>tok_value = k, tok_type = STRING\<rparr>, \<lparr>inp = s\<lparr>buf := r\<rparr>, curr_char = CHR 0x22\<rparr>)"
proof (cases k)
  case Nil
  have "string_loop cap \<lparr>inp = s\<lparr>buf := r\<rparr>, curr_char = CHR 0x22\<rparr> []
          = Inr ([], \<lparr>inp = s\<lparr>buf := r\<rparr>, curr_char = CHR 0x22\<rparr>)"
    by (subst string_loop.simps) simp
  then show ?thesis
    using Nil get_curr_good [OF assms(1), of "CHR 0x22" r "CHR 0x22"] by (simp add: token_at_def)
next
  case (Cons a k')
  have "string_loop cap \<lparr>inp = s\<lparr>buf := k' @ CHR 0x22 # r\<rparr>, curr_char = a\<rparr> []
          = Inr ([] @ a # k', \<lparr>inp = s\<lparr>buf := r\<rparr>, curr_char = CHR 0x22\<rparr>)"
    using assms(2,3) Cons by (intro string_loop_closed [OF assms(1)]) auto
  then show ?thesis
    using Cons get_curr_good [OF assms(1), of a "k' @ CHR 0x22 # r" "CHR 0x22"]
    by (simp add: token_at_def)
qed

lemma read_curr_skip_prefix:
  assumes "good s" "skipws s" "\<forall>w \<in> set ws. isspace w" "buf s = ws @ r"
  shows "read_curr \<lparr>inp = s, curr_char = cc\<rparr> = read_curr \<lparr>inp = s\<lparr>buf := r\<rparr>, curr_char = cc\<rparr>"
proof -
  have "dropWhile isspace (ws @ r) = dropWhile isspace r"
    using assms(3) by (induction ws) auto
  then show ?thesis
    using assms(1,2,4)
    by (simp add: read_curr_def extract_char_def sentry_def good_def split: list.splits)
qed

lemma token_at_tab_cr:
  assumes "c = CHR 0x09 \<or> c = CHR 0x0D"
  shows "token_at cap \<lparr>inp = s, curr_char = c\<rparr> = Inl (unidentified c)"
  using assms by (elim disjE) (simp_all add: token_at_def)

lemma unidentified_tab_cr:
  assumes "c = CHR 0x09 \<or> c = CHR 0x0D"
  shows "is_json_exception (unidentified c)"
  using assms by (elim disjE) (simp_all add: unidentified_def)

section \<open>The claims about the lexer\<close>

text \<open>
  C5, as the code has it. The lexer's own loop skips spaces and newlines only, but every
  token starts with a formatted read, which obeys the stream's \<open>skipws\<close> flag. So on a
  stream with \<open>skipws\<close> cleared a tab or a carriage return in front of the next token
  makes \<open>get_token\<close> throw a \<open>json_exception\<close>, and on a stream with \<open>skipws\<close> set (the
  default) the tab or carriage return is passed over like any other white space: the
  call behaves as on the stream that starts behind it.
\<close>

theorem C5_tab_cr_by_skipws:
  assumes "good s" and "skipped s ws" and "c = CHR 0x09 \<or> c = CHR 0x0D"
    and "buf s = ws @ c # r"
  shows "if skipws s
         then get_token cap \<lparr>inp = s, curr_char = cc\<rparr> = get_token cap \<lparr>inp = s\<lparr>buf := r\<rparr>, curr_char = cc\<rparr>
         else (\<exists>e. get_token cap \<lparr>inp = s, curr_char = cc\<rparr> = Inl e \<and> is_json_exception e)"
proof (cases "skipws s")
  case True
  have "\<forall>w \<in> set (ws @ [c]). isspace w"
    using assms(2,3) True by (auto simp: skipped_def isspace_def)
  then have "read_curr \<lparr>inp = s, curr_char = cc\<rparr> = read_curr \<lparr>inp = s\<lparr>buf := r\<rparr>, curr_char = cc\<rparr>"
    using read_curr_skip_prefix [of s "ws @ [c]" r cc] True assms(1,4) by simp
  then have "get_token cap \<lparr>inp = s, curr_char = cc\<rparr> = get_token cap \<lparr>inp = s\<lparr>buf := r\<rparr>, curr_char = cc\<rparr>"
    unfolding get_token_def by (rule arg_cong)
  then show ?thesis using True by simp
next
  case False
  have st: "stops s c" using assms(3) False by (auto simp: stops_def)
  have "get_token cap \<lparr>inp = s, curr_char = cc\<rparr> = Inl (unidentified c)"
    using get_token_skip [OF assms(1,2) st assms(4), where cc = cc and cap = cap] token_at_tab_cr [OF assms(3)] by simp
  then show ?thesis using False unidentified_tab_cr [OF assms(3)] by simp
qed

theorem C5_tab_cr_by_skipws_witness:
  "(\<exists>e. get_token 1024 \<lparr>inp = \<lparr>buf = [CHR 0x20, CHR 0x09, CHR '']''], skipws = False,
                               eofbit = False, failbit = False\<rparr>, curr_char = CHR ''[''\<rparr>
          = Inl e \<and> is_json_exception e)
   \<and> get_token 1024 \<lparr>inp = \<lparr>buf = [CHR 0x20, CHR 0x09, CHR '']''], skipws = True,
                         eofbit = False, failbit = False\<rparr>, curr_char = CHR ''[''\<rparr>
     = get_token 1024 \<lparr>inp = \<lparr>buf = [CHR '']''], skipws = True,
                         eofbit = False, failbit = False\<rparr>, curr_char = CHR ''[''\<rparr>"
proof -
  let ?raw = "\<lparr>buf = [CHR 0x20, CHR 0x09, CHR '']''], skipws = False, eofbit = False, failbit = False\<rparr>"
  let ?dfl = "\<lparr>buf = [CHR 0x20, CHR 0x09, CHR '']''], skipws = True, eofbit = False, failbit = False\<rparr>"
  have a: "good ?raw" "skipped ?raw [CHR 0x20]" "CHR 0x09 = CHR 0x09 \<or> CHR 0x09 = CHR 0x0D"
    "buf ?raw = [CHR 0x20] @ CHR 0x09 # [CHR '']'']"
    by (simp_all add: good_def skipped_def)
  have b: "good ?dfl" "skipped ?dfl [CHR 0x20]"
    "buf ?dfl = [CHR 0x20] @ CHR 0x09 # [CHR '']'']"
    by (simp_all add: good_def skipped_def isspace_def)
  show ?thesis
    using C5_tab_cr_by_skipws [OF a, where cap = 1024 and cc = "CHR ''[''"]
      C5_tab_cr_by_skipws [OF b(1,2) a(3) b(3), where cap = 1024 and cc = "CHR ''[''"]
    by simp
qed

text \<open>
  C5 as the specification states it fails on a default stream: in the text of an opening
  bracket, a tab and a closing bracket the tab stands between two tokens, and the second
  call of \<open>get_token\<close> returns the closing bracket.
\<close>

theorem C5_counterexample:
  "get_token 1024 (Tokenizer_on (istream_of [CHR ''['', CHR 0x09, CHR '']'']))
     = Inr (\<lparr>tok_value = [], tok_type = QUADRA_APERTA\<rparr>,
                  \<lparr>inp = istream_of [CHR 0x09, CHR '']''], curr_char = CHR ''[''\<rparr>)
   \<and> get_token 1024 \<lparr>inp = istream_of [CHR 0x09, CHR '']''], curr_char = CHR ''[''\<rparr>
     = Inr (\<lparr>tok_value = [], tok_type = QUADRA_CHIUSA\<rparr>,
                  \<lparr>inp = istream_of [], curr_char = CHR '']''\<rparr>)"
  by (simp add: get_token_def token_at_def read_curr_def extract_char_def sentry_def good_def
      isspace_def istream_of_def Tokenizer_on_def)

text \<open>
  C8. When the next character the lexer stops at is \<open>n\<close>, \<open>get_token\<close> returns a \<open>NULLO\<close>
  token whatever follows, and moves the read position by \<open>seekg(3, cur)\<close> without looking
  at the characters: whenever three or more characters follow, exactly three are dropped.
\<close>

theorem C8_null_unchecked:
  assumes "good s" and "skipped s ws" and "buf s = ws @ CHR ''n'' # r"
  shows "get_token cap \<lparr>inp = s, curr_char = cc\<rparr>
           = Inr (\<lparr>tok_value = [], tok_type = NULLO\<rparr>,
                        \<lparr>inp = seekg_cur 3 (s\<lparr>buf := r\<rparr>), curr_char = CHR ''n''\<rparr>)
         \<and> (3 \<le> length r \<longrightarrow> seekg_cur 3 (s\<lparr>buf := r\<rparr>) = s\<lparr>buf := drop 3 r\<rparr>)"
proof -
  have st: "stops s (CHR ''n'')" by (simp add: stops_def isspace_def)
  have "token_at cap \<lparr>inp = s\<lparr>buf := r\<rparr>, curr_char = CHR ''n''\<rparr>
          = Inr (\<lparr>tok_value = [], tok_type = NULLO\<rparr>,
                       \<lparr>inp = seekg_cur 3 (s\<lparr>buf := r\<rparr>), curr_char = CHR ''n''\<rparr>)"
    by (simp add: token_at_def)
  moreover have "3 \<le> length r \<longrightarrow> seekg_cur 3 (s\<lparr>buf := r\<rparr>) = s\<lparr>buf := drop 3 r\<rparr>"
    using assms(1) by (simp add: seekg_cur_def good_def)
  ultimately show ?thesis
    using get_token_skip [OF assms(1,2) st assms(3), where cc = cc and cap = cap] by simp
qed

theorem C8_null_unchecked_witness:
  "get_token 1024 (Tokenizer_on (istream_of '' nxyz]''))
     = Inr (\<lparr>tok_value = [], tok_type = NULLO\<rparr>,
                  \<lparr>inp = istream_of '']'', curr_char = CHR ''n''\<rparr>)"
proof -
  have a: "good (istream_of '' nxyz]'')" "skipped (istream_of '' nxyz]'') '' ''"
    "buf (istream_of '' nxyz]'') = '' '' @ CHR ''n'' # ''xyz]''"
    by (simp_all add: good_def skipped_def isspace_def istream_of_def)
  show ?thesis
    using C8_null_unchecked [OF a, where cap = 1024 and cc = "CHR 0x20"]
    by (simp add: Tokenizer_on_def istream_of_def)
qed

text \<open>
  C10, as the code has it. When the lexer stops at an opening quote that is followed by at
  least one character and by no further quote up to the end of the stream, \<open>get_token\<close>
  returns no token: the string loop appends the last character read until the text of
  the token can grow no more, and the call ends with the exception of the library for
  that, whatever the capacity is. That exception is no \<open>json_exception\<close>.
\<close>

theorem C10_unclosed_string:
  assumes "good s" and "skipped s ws" and "buf s = ws @ CHR 0x22 # r"
    and "r \<noteq> []" and "CHR 0x22 \<notin> set r"
  shows "get_token cap \<lparr>inp = s, curr_char = cc\<rparr> = Inl std_bad_alloc
         \<and> \<not> is_json_exception std_bad_alloc"
proof -
  have st: "stops s (CHR 0x22)" by (simp add: stops_def isspace_def)
  obtain a r' where r: "r = a # r'" using assms(4) by (cases r) auto
  have g: "get_curr \<lparr>inp = s\<lparr>buf := r\<rparr>, curr_char = CHR 0x22\<rparr> = \<lparr>inp = s\<lparr>buf := r'\<rparr>, curr_char = a\<rparr>"
    using get_curr_good [OF assms(1), of a r' "CHR 0x22"] r by simp
  have "string_loop cap \<lparr>inp = s\<lparr>buf := r'\<rparr>, curr_char = a\<rparr> [] = Inl std_bad_alloc"
    using assms(5) r by (intro string_loop_stuck) auto
  then show ?thesis
    using get_token_skip [OF assms(1,2) st assms(3), where cc = cc and cap = cap] g by (simp add: token_at_def)
qed

theorem C10_unclosed_string_witness:
  "get_token 1024 (Tokenizer_on (istream_of [CHR 0x20, CHR 0x22, CHR ''a'', CHR ''b''])) = Inl std_bad_alloc
   \<and> \<not> is_json_exception std_bad_alloc"
proof -
  let ?s = "istream_of [CHR 0x20, CHR 0x22, CHR ''a'', CHR ''b'']"
  have a: "good ?s" "skipped ?s [CHR 0x20]" "buf ?s = [CHR 0x20] @ CHR 0x22 # [CHR ''a'', CHR ''b'']"
    "[CHR ''a'', CHR ''b''] \<noteq> []" "CHR 0x22 \<notin> set [CHR ''a'', CHR ''b'']"
    by (simp_all add: good_def skipped_def isspace_def istream_of_def)
  show ?thesis
    using C10_unclosed_string [OF a, where cap = 1024 and cc = "CHR 0x20"]
    by (simp add: Tokenizer_on_def)
qed

text \<open>
  C10 as the specification states it, for any unclosed string literal, fails when the
  opening quote is the last character of the stream: the read behind it fails, \<open>curr_char\<close>
  is still the quote, the loop is not entered and an empty \<open>STRING\<close> token is returned.
\<close>

theorem C10_counterexample:
  "get_token 1024 (Tokenizer_on (istream_of [CHR 0x22]))
     = Inr (\<lparr>tok_value = [], tok_type = STRING\<rparr>,
            \<lparr>inp = \<lparr>buf = [], skipws = True, eofbit = True, failbit = True\<rparr>,
             curr_char = CHR 0x22\<rparr>)"
  by (simp add: get_token_def token_at_def read_curr_def extract_char_def sentry_def good_def
      isspace_def istream_of_def Tokenizer_on_def get_curr_def get_def string_loop.simps)

section \<open>The claims about the value\<close>

lemma first_index_Some:
  "first_index k d = Some i \<Longrightarrow> i < length d \<and> fst (d ! i) = k \<and> (\<forall>n < i. fst (d ! n) \<noteq> k)"
proof (induction d arbitrary: i)
  case Nil
  then show ?case by simp
next
  case (Cons m ms)
  show ?case
  proof (cases "fst m = k")
    case True
    with Cons.prems show ?thesis by simp
  next
    case False
    with Cons.prems obtain i' where i': "first_index k ms = Some i'" "i = Suc i'" by auto
    from Cons.IH [OF i'(1)] False i'(2) show ?thesis
      by (auto simp: nth_Cons split: nat.splits)
  qed
qed

lemma first_index_None: "first_index k d = None \<longleftrightarrow> k \<notin> fst ` set d"
  by (induction d) auto

text \<open>
  C1 at a failing input. The setters release the payload but leave its pointer as it is,
  and the predicates test the pointers. On a fresh value, \<open>set_number(1.0)\<close> followed by
  \<open>set_null()\<close> gives a value for which \<open>is_null\<close> is false and \<open>is_number\<close> is true;
  followed by \<open>set_string("x")\<close> it gives a value for which both \<open>is_number\<close> and
  \<open>is_string\<close> are true.
\<close>

theorem C1_released_pointer_stays:
  "set_null (set_number 1 json_new) = Impl Dangling Null Null Null Null
   \<and> is_null (set_null (set_number 1 json_new)) = False
   \<and> is_number (set_null (set_number 1 json_new)) = True
   \<and> set_string ''x'' (set_number 1 json_new) = Impl Dangling Null (Live ''x'') Null Null
   \<and> is_number (set_string ''x'' (set_number 1 json_new)) = True
   \<and> is_string (set_string ''x'' (set_number 1 json_new)) = True"
  by (simp add: is_null_def set_null_def set_number_def set_string_def json_new_def release_def
      is_number_def is_list_def is_bool_def is_dictionary_def is_string_def)

text \<open>
  C9, as the code has it. \<open>begin_dictionary\<close> and \<open>end_dictionary\<close> of a mutable value test
  the list predicate: they throw the \<open>json_exception\<close> of that test on every value for
  which \<open>is_list\<close> is false, so on every dictionary whose list pointer is null. The two
  overloads for a read-only value test \<open>is_dictionary\<close>: they throw on every value that is
  not a dictionary, and on a dictionary they return the iterators to the first member and
  behind the last.
\<close>

theorem C9_dictionary_iterators:
  "(\<not> is_list j \<longrightarrow>
      begin_dictionary j = Inl (json_exception ''this is not a list'')
      \<and> end_dictionary j = Inl (json_exception ''this is not a list''))
   \<and> (\<not> is_dictionary j \<longrightarrow>
      begin_dictionary_const j = Inl (json_exception ''this is not a dictionary'')
      \<and> end_dictionary_const j = Inl (json_exception ''this is not a dictionary''))
   \<and> (impl_dict j = Live d \<longrightarrow>
      is_dictionary j \<and> begin_dictionary_const j = Inr d \<and> end_dictionary_const j = Inr [])"
  by (simp add: begin_dictionary_def end_dictionary_def begin_dictionary_const_def
      end_dictionary_const_def is_dictionary_def)

theorem C9_dictionary_iterators_witness:
  "begin_dictionary (Impl Null Null Null Null (Live [(''a'', json_new)]))
     = Inl (json_exception ''this is not a list'')
   \<and> end_dictionary (Impl Null Null Null Null (Live [(''a'', json_new)]))
     = Inl (json_exception ''this is not a list'')
   \<and> begin_dictionary_const (Impl Null Null Null Null (Live [(''a'', json_new)]))
     = Inr [(''a'', json_new)]
   \<and> end_dictionary_const (Impl Null Null Null Null (Live [(''a'', json_new)])) = Inr []
   \<and> begin_dictionary_const (Impl Null Null Null (Live []) Null)
     = Inl (json_exception ''this is not a dictionary'')
   \<and> end_dictionary_const (Impl Null Null Null (Live []) Null)
     = Inl (json_exception ''this is not a dictionary'')"
proof -
  let ?j = "Impl Null Null Null Null (Live [(''a'', json_new)])"
  let ?l = "Impl Null Null Null (Live []) Null"
  have a: "\<not> is_list ?j" "impl_dict ?j = Live [(''a'', json_new)]" "\<not> is_dictionary ?l"
    by (simp_all add: is_list_def is_dictionary_def)
  show ?thesis
    using C9_dictionary_iterators [of ?j "[(''a'', json_new)]"] C9_dictionary_iterators [of ?l "[]"] a
    by simp
qed

text \<open>
  C9 as the specification states it, for every dictionary, fails for a dictionary that
  was a list before: \<open>set_list\<close> followed by \<open>set_dictionary\<close> releases the list and leaves
  its pointer as it is, so that \<open>is_list\<close> still holds, and the two operations on the
  mutable value return the iterators.
\<close>

theorem C9_counterexample:
  "is_dictionary (set_dictionary (set_list json_new))
   \<and> impl_dict (set_dictionary (set_list json_new)) = Live []
   \<and> is_list (set_dictionary (set_list json_new))
   \<and> begin_dictionary (set_dictionary (set_list json_new)) = Inr []
   \<and> end_dictionary (set_dictionary (set_list json_new)) = Inr []"
  by (simp add: begin_dictionary_def end_dictionary_def is_dictionary_def is_list_def
      set_dictionary_def set_list_def release_def json_new_def is_number_def is_bool_def
      is_string_def)

text \<open>
  C4. Keyed lookup on a value that is not a dictionary throws in both overloads. On a
  dictionary with the key present both find the first member with that key: the mutable
  overload returns the slot and leaves the value as it is, the read-only one returns the
  member's value. With the key absent the mutable overload appends a member with a fresh
  null value and returns that last slot, and the read-only one throws.
\<close>

theorem C4_keyed_lookup:
  "(\<not> is_dictionary j \<longrightarrow>
      index_mutable k j = Inl (json_exception ''this is not a dictionary'')
      \<and> index_const k j = Inl (json_exception ''this is not a dictionary''))
   \<and> (impl_dict j = Live d \<and> k \<in> fst ` set d \<longrightarrow>
        (\<exists>i < length d. fst (d ! i) = k \<and> (\<forall>n < i. fst (d ! n) \<noteq> k)
           \<and> index_mutable k j = Inr (j, i)
           \<and> index_const k j = Inr (snd (d ! i))))
   \<and> (impl_dict j = Live d \<and> k \<notin> fst ` set d \<longrightarrow>
        index_mutable k j
          = Inr (Impl (impl_number j) (impl_b j) (impl_s j) (impl_l j) (Live (d @ [(k, json_new)])),
                 length d)
        \<and> (d @ [(k, json_new)]) ! length d = (k, json_new)
        \<and> is_null json_new
        \<and> index_const k j = Inl (json_exception ''non posso effettuare l'inserimento''))"
proof (intro conjI impI)
  assume "\<not> is_dictionary j"
  then show "index_mutable k j = Inl (json_exception ''this is not a dictionary'')"
    and "index_const k j = Inl (json_exception ''this is not a dictionary'')"
    by (simp_all add: index_mutable_def index_const_def)
next
  assume a: "impl_dict j = Live d \<and> k \<in> fst ` set d"
  then obtain i where i: "first_index k d = Some i"
    using first_index_None [of k d] by (cases "first_index k d") auto
  from first_index_Some [OF i] a i
  show "\<exists>i < length d. fst (d ! i) = k \<and> (\<forall>n < i. fst (d ! n) \<noteq> k)
           \<and> index_mutable k j = Inr (j, i) \<and> index_const k j = Inr (snd (d ! i))"
    by (intro exI [of _ i]) (simp add: index_mutable_def index_const_def is_dictionary_def)
next
  assume a: "impl_dict j = Live d \<and> k \<notin> fst ` set d"
  then have n: "first_index k d = None" using first_index_None [of k d] by simp
  from a n show "index_mutable k j
          = Inr (Impl (impl_number j) (impl_b j) (impl_s j) (impl_l j) (Live (d @ [(k, json_new)])),
                 length d)"
    by (simp add: index_mutable_def is_dictionary_def)
  show "(d @ [(k, json_new)]) ! length d = (k, json_new)" by simp
  show "is_null json_new"
    by (simp add: is_null_def json_new_def is_number_def is_list_def is_bool_def
        is_dictionary_def is_string_def)
  from a n show "index_const k j = Inl (json_exception ''non posso effettuare l'inserimento'')"
    by (simp add: index_const_def is_dictionary_def)
qed

theorem C4_keyed_lookup_witness:
  "index_mutable ''b'' (Impl Null Null Null Null
       (Live [(''a'', json_new), (''b'', set_bool True json_new), (''b'', set_bool False json_new)]))
     = Inr (Impl Null Null Null Null
       (Live [(''a'', json_new), (''b'', set_bool True json_new), (''b'', set_bool False json_new)]), 1)
   \<and> index_const ''b'' (Impl Null Null Null Null
       (Live [(''a'', json_new), (''b'', set_bool True json_new), (''b'', set_bool False json_new)]))
     = Inr (set_bool True json_new)
   \<and> index_mutable ''z'' (Impl Null Null Null Null (Live [(''a'', json_new)]))
     = Inr (Impl Null Null Null Null (Live [(''a'', json_new), (''z'', json_new)]), 1)
   \<and> index_const ''z'' (Impl Null Null Null Null (Live [(''a'', json_new)]))
     = Inl (json_exception ''non posso effettuare l'inserimento'')
   \<and> index_mutable ''a'' (set_number 1 json_new) = Inl (json_exception ''this is not a dictionary'')
   \<and> index_const ''a'' (set_number 1 json_new) = Inl (json_exception ''this is not a dictionary'')"
proof -
  let ?d = "[(''a'', json_new), (''b'', set_bool True json_new), (''b'', set_bool False json_new)]"
  let ?j = "Impl Null Null Null Null (Live ?d)"
  let ?e = "[(''a'', json_new)]"
  let ?k = "Impl Null Null Null Null (Live ?e)"
  have "impl_dict ?j = Live ?d \<and> ''b'' \<in> fst ` set ?d" by simp
  with C4_keyed_lookup [of ?j "''b''" ?d]
  obtain i where i: "i < length ?d" "fst (?d ! i) = ''b''" "\<forall>n < i. fst (?d ! n) \<noteq> ''b''"
    "index_mutable ''b'' ?j = Inr (?j, i)" "index_const ''b'' ?j = Inr (snd (?d ! i))"
    by blast
  have "i = 1"
  proof -
    from i(1) have "i = 0 \<or> i = 1 \<or> i = 2" by auto
    moreover have "i \<noteq> 0" using i(2) by (cases i) auto
    moreover have "i \<noteq> 2" using i(3) by (auto dest: spec [of _ 1])
    ultimately show ?thesis by simp
  qed
  with i(4,5) have p: "index_mutable ''b'' ?j = Inr (?j, 1)"
    "index_const ''b'' ?j = Inr (set_bool True json_new)" by simp_all
  have "impl_dict ?k = Live ?e \<and> ''z'' \<notin> fst ` set ?e" by simp
  with C4_keyed_lookup [of ?k "''z''" ?e]
  have q: "index_mutable ''z'' ?k = Inr (Impl Null Null Null Null (Live [(''a'', json_new), (''z'', json_new)]), 1)"
    "index_const ''z'' ?k = Inl (json_exception ''non posso effettuare l'inserimento'')"
    by simp_all
  have "\<not> is_dictionary (set_number 1 json_new)"
    by (simp add: is_dictionary_def set_number_def release_def json_new_def is_number_def
        is_list_def is_bool_def is_string_def)
  with C4_keyed_lookup [of "set_number 1 json_new" "''a''" "[]"]
  have r: "index_mutable ''a'' (set_number 1 json_new) = Inl (json_exception ''this is not a dictionary'')"
    "index_const ''a'' (set_number 1 json_new) = Inl (json_exception ''this is not a dictionary'')"
    by simp_all
  from p q r show ?thesis by simp
qed

section \<open>Facts about the parser\<close>

lemmas lex_eval = get_token_def token_at_def read_curr_def extract_char_def sentry_def good_def
  isspace_def seekg_cur_def number_loop.simps peek_def numeric_def peek_char_def get_curr_def
  get_def string_loop.simps getWithoutWhiteSpace.simps get_n_def c_str_def Tokenizer_on_def
  istream_of_def unidentified_def

lemma bit_length_0: "bit_length 0 = 0"
  by (simp add: bit_length.simps [of 0])

lemma bit_length_1: "bit_length 1 = 1"
  by (simp add: bit_length.simps [of 1] bit_length_0)

lemma bit_length_2: "bit_length 2 = 2"
  by (simp add: bit_length.simps [of 2] bit_length_1)

lemma stod_1: "stod ''1'' = Inr 1"
  by (simp add: stod_def is_digit_def digits_val_def to_double_def binexp_def bit_length_1
      round_half_even_def)

lemma stod_2: "stod ''2'' = Inr 2"
  by (simp add: stod_def is_digit_def digits_val_def to_double_def binexp_def bit_length_1
      bit_length_2 round_half_even_def)

lemma stod_minus: "stod ''-'' = Inl std_invalid_argument"
  by (simp add: stod_def is_digit_def)

lemmas json_eval = json_new_def set_dictionary_def set_list_def set_string_def set_number_def
  set_bool_def set_null_def release_def is_number_def is_list_def is_bool_def is_dictionary_def
  is_string_def insert_member_def push_back_def move_assign_def get_json_string_def
  get_json_number_def get_json_boolean_def get_json_null_def stod_1 stod_2 stod_minus

lemma stod_errors:
  "stod txt = Inl e \<Longrightarrow> e = std_invalid_argument \<or> e = std_out_of_range"
  by (auto simp: stod_def to_double_def Let_def split: if_splits sum.splits)

subsection \<open>Single tokens\<close>

lemma good_buf [simp]: "good (s\<lparr>buf := r\<rparr>) = good s"
  by (simp add: good_def)

lemma get_token_at:
  assumes "good s" and "\<not> isspace c"
  shows "get_token cap \<lparr>inp = s\<lparr>buf := c # r\<rparr>, curr_char = cc\<rparr>
           = token_at cap \<lparr>inp = s\<lparr>buf := r\<rparr>, curr_char = c\<rparr>"
proof -
  have "skipped (s\<lparr>buf := c # r\<rparr>) []" by (simp add: skipped_def)
  moreover have "stops (s\<lparr>buf := c # r\<rparr>) c"
    using assms(2) by (auto simp: stops_def isspace_def)
  ultimately show ?thesis
    using get_token_skip [of "s\<lparr>buf := c # r\<rparr>" "[]" c r cap cc] assms(1) by simp
qed

lemma get_token_graffa_aperta:
  "good s \<Longrightarrow> get_token cap \<lparr>inp = s\<lparr>buf := CHR ''{'' # r\<rparr>, curr_char = cc\<rparr>
     = Inr (\<lparr>tok_value = [], tok_type = GRAFFA_APERTA\<rparr>, \<lparr>inp = s\<lparr>buf := r\<rparr>, curr_char = CHR ''{''\<rparr>)"
  by (simp add: get_token_at isspace_def token_at_def)


lemma get_token_quadra_aperta:
  "good s \<Longrightarrow> get_token cap \<lparr>inp = s\<lparr>buf := CHR ''['' # r\<rparr>, curr_char = cc\<rparr>
     = Inr (\<lparr>tok_value = [], tok_type = QUADRA_APERTA\<rparr>, \<lparr>inp = s\<lparr>buf := r\<rparr>, curr_char = CHR ''[''\<rparr>)"
  by (simp add: get_token_at isspace_def token_at_def)

lemma get_token_quadra_chiusa:
  "good s \<Longrightarrow> get_token cap \<lparr>inp = s\<lparr>buf := CHR '']'' # r\<rparr>, curr_char = cc\<rparr>
     = Inr (\<lparr>tok_value = [], tok_type = QUADRA_CHIUSA\<rparr>, \<lparr>inp = s\<lparr>buf := r\<rparr>, curr_char = CHR '']''\<rparr>)"
  by (simp add: get_token_at isspace_def token_at_def)

lemma get_token_due_punti:
  "good s \<Longrightarrow> get_token cap \<lparr>inp = s\<lparr>buf := CHR '':'' # r\<rparr>, curr_char = cc\<rparr>
     = Inr (\<lparr>tok_value = [], tok_type = DUE_PUNTI\<rparr>, \<lparr>inp = s\<lparr>buf := r\<rparr>, curr_char = CHR '':''\<rparr>)"
  by (simp add: get_token_at isspace_def token_at_def)


lemma get_token_string:
  assumes "good s" and "CHR 0x22 \<notin> set k" and "length k \<le> cap"
  shows "get_token cap \<lparr>inp = s\<lparr>buf := CHR 0x22 # k @ CHR 0x22 # r\<rparr>, curr_char = cc\<rparr>
     = Inr (\<lparr>tok_value = k, tok_type = STRING\<rparr>, \<lparr>inp = s\<lparr>buf := r\<rparr>, curr_char = CHR 0x22\<rparr>)"
  using assms by (simp add: get_token_at isspace_def token_at_string)


lemma not_numeric_eof: "\<not> numeric (CHR 0xFF)"
  by (simp add: numeric_def)

lemma number_loop_at_end:
  assumes "good s" and "numeric cc"
  shows "number_loop \<lparr>inp = s\<lparr>buf := []\<rparr>, curr_char = cc\<rparr> v
       = (v, \<lparr>inp = s\<lparr>buf := [], eofbit := True, failbit := True\<rparr>, curr_char = CHR 0xFF\<rparr>)"
proof -
  have p1: "peek (s\<lparr>buf := []\<rparr>) = (None, s\<lparr>buf := [], eofbit := True\<rparr>)"
    using assms by (simp add: peek_def sentry_def good_def)
  have p2: "peek (s\<lparr>buf := [], eofbit := True\<rparr>) = (None, s\<lparr>buf := [], eofbit := True, failbit := True\<rparr>)"
    by (simp add: peek_def sentry_def good_def)
  have e: "number_loop \<lparr>inp = s\<lparr>buf := [], eofbit := True, failbit := True\<rparr>, curr_char = CHR 0xFF\<rparr> v
     = (v, \<lparr>inp = s\<lparr>buf := [], eofbit := True, failbit := True\<rparr>, curr_char = CHR 0xFF\<rparr>)"
    by (subst number_loop.simps) (simp add: not_numeric_eof)
  show ?thesis
    by (subst number_loop.simps) (simp add: assms p1 p2 peek_char_def not_numeric_eof e)
qed

lemma number_loop_at_delimiter:
  assumes "good s" and "numeric cc" and "\<not> numeric c" and "c \<noteq> CHR 0x00"
  shows "number_loop \<lparr>inp = s\<lparr>buf := c # r\<rparr>, curr_char = cc\<rparr> v
       = (v, \<lparr>inp = s\<lparr>buf := c # r\<rparr>, curr_char = c\<rparr>)"
proof -
  have p: "peek (s\<lparr>buf := c # r\<rparr>) = (Some c, s\<lparr>buf := c # r\<rparr>)"
    using assms(1) by (simp add: peek_def sentry_def good_def)
  have e: "number_loop \<lparr>inp = s\<lparr>buf := c # r\<rparr>, curr_char = c\<rparr> v
     = (v, \<lparr>inp = s\<lparr>buf := c # r\<rparr>, curr_char = c\<rparr>)"
    by (subst number_loop.simps) (simp add: assms(3))
  show ?thesis
    by (subst number_loop.simps) (simp add: assms p peek_char_def e)
qed

lemma number_loop_step:
  assumes "good s" and "numeric cc" and "numeric a"
  shows "number_loop \<lparr>inp = s\<lparr>buf := a # r\<rparr>, curr_char = cc\<rparr> v
          = number_loop \<lparr>inp = s\<lparr>buf := r\<rparr>, curr_char = a\<rparr> (v @ [a])"
proof -
  have a: "a \<noteq> CHR 0x00" using assms(3) by (auto simp: numeric_def)
  have p: "peek (s\<lparr>buf := a # r\<rparr>) = (Some a, s\<lparr>buf := a # r\<rparr>)"
    using assms(1) by (simp add: peek_def sentry_def good_def)
  have g: "get_curr \<lparr>inp = s\<lparr>buf := a # r\<rparr>, curr_char = a\<rparr> = \<lparr>inp = s\<lparr>buf := r\<rparr>, curr_char = a\<rparr>"
    using assms(1) by (simp add: get_curr_def get_def sentry_def good_def)
  show ?thesis
    by (subst number_loop.simps) (simp add: assms(2,3) a p g peek_char_def)
qed

lemma number_loop_to_end:
  assumes "good s"
  shows "\<forall>c \<in> set r. numeric c \<Longrightarrow> numeric cc \<Longrightarrow>
     number_loop \<lparr>inp = s\<lparr>buf := r\<rparr>, curr_char = cc\<rparr> v
       = (v @ r, \<lparr>inp = s\<lparr>buf := [], eofbit := True, failbit := True\<rparr>, curr_char = CHR 0xFF\<rparr>)"
proof (induction r arbitrary: cc v)
  case Nil
  then show ?case using number_loop_at_end [OF assms, of cc v] by simp
next
  case (Cons a r)
  have a: "numeric a" using Cons.prems by simp
  show ?case
    using number_loop_step [OF assms Cons.prems(2) a, of r v] Cons.IH [of a "v @ [a]"] Cons.prems a
    by simp
qed

lemma number_loop_to_delimiter:
  assumes "good s" and "\<not> numeric c" and "c \<noteq> CHR 0x00"
  shows "\<forall>x \<in> set ds. numeric x \<Longrightarrow> numeric cc \<Longrightarrow>
     number_loop \<lparr>inp = s\<lparr>buf := ds @ c # r\<rparr>, curr_char = cc\<rparr> v
       = (v @ ds, \<lparr>inp = s\<lparr>buf := c # r\<rparr>, curr_char = c\<rparr>)"
proof (induction ds arbitrary: cc v)
  case Nil
  then show ?case using number_loop_at_delimiter [OF assms(1) _ assms(2,3), of cc r v] by simp
next
  case (Cons a ds)
  have a: "numeric a" using Cons.prems by simp
  show ?case
    using number_loop_step [OF assms(1) Cons.prems(2) a, of "ds @ c # r" v]
      Cons.IH [of a "v @ [a]"] Cons.prems a
    by simp
qed

lemma token_at_number_start:
  assumes "c = CHR ''-'' \<or> is_digit c"
  shows "token_at cap \<lparr>inp = s, curr_char = c\<rparr>
           = (case number_loop \<lparr>inp = s, curr_char = c\<rparr> [c] of
                (v, t') \<Rightarrow> Inr (\<lparr>tok_value = v, tok_type = NUMBER\<rparr>, t'))"
  using assms by (auto simp: token_at_def is_digit_def)

lemma number_start:
  assumes "c = CHR ''-'' \<or> is_digit c"
  shows "\<not> isspace c" and "numeric c"
  using assms by (auto simp: isspace_def numeric_def is_digit_def)

lemma get_token_number_to_end:
  assumes "good s" and "number_text ds"
  shows "get_token cap \<lparr>inp = s\<lparr>buf := ds\<rparr>, curr_char = cc\<rparr>
           = Inr (\<lparr>tok_value = ds, tok_type = NUMBER\<rparr>,
                  \<lparr>inp = s\<lparr>buf := [], eofbit := True, failbit := True\<rparr>, curr_char = CHR 0xFF\<rparr>)"
proof -
  obtain c r where ds: "ds = c # r" using assms(2) by (cases ds) (auto simp: number_text_def)
  have c: "c = CHR ''-'' \<or> is_digit c" "\<forall>x \<in> set r. numeric x"
    using assms(2) ds by (auto simp: number_text_def)
  show ?thesis
    using number_start [OF c(1)] number_loop_to_end [OF assms(1) c(2), of c "[c]"]
    by (simp add: ds get_token_at [OF assms(1)] token_at_number_start [OF c(1)])
qed

lemma get_token_number:
  assumes "good s" and "number_text ds" and "\<not> numeric c" and "c \<noteq> CHR 0x00"
  shows "get_token cap \<lparr>inp = s\<lparr>buf := ds @ c # r\<rparr>, curr_char = cc\<rparr>
           = Inr (\<lparr>tok_value = ds, tok_type = NUMBER\<rparr>, \<lparr>inp = s\<lparr>buf := c # r\<rparr>, curr_char = c\<rparr>)"
proof -
  obtain a ds' where ds: "ds = a # ds'" using assms(2) by (cases ds) (auto simp: number_text_def)
  have a: "a = CHR ''-'' \<or> is_digit a" "\<forall>x \<in> set ds'. numeric x"
    using assms(2) ds by (auto simp: number_text_def)
  show ?thesis
    using number_start [OF a(1)]
      number_loop_to_delimiter [OF assms(1,3,4) a(2), of a r "[a]"]
    by (simp add: ds get_token_at [OF assms(1)] token_at_number_start [OF a(1)])
qed

subsection \<open>The rounds of the parser\<close>

lemma kind_of_not_close:
  "kind_of ty = Some k \<Longrightarrow> ty \<noteq> GRAFFA_CHIUSA \<and> ty \<noteq> QUADRA_CHIUSA \<and> ty \<noteq> DUE_PUNTI
     \<and> ty \<noteq> VIRGOLA \<and> ty \<noteq> FINE_INPUT"
  by (cases ty) auto

lemma parse_Call_dictionary:
  "parse cap Call_dictionary t =
     and_then (Some (get_token cap t)) (\<lambda>(token, t1).
       parse cap (Loop_dictionary (set_dictionary json_new) token [] False True False) t1)"
  by (subst parse.simps) simp

lemma parse_Call_list:
  "parse cap Call_list t =
     and_then (Some (get_token cap t)) (\<lambda>(token, t1).
       parse cap (Loop_list (set_list json_new) token False True) t1)"
  by (subst parse.simps) simp

lemma parse_Value_number:
  "parse cap (Value_of K_number token) t =
     (case get_json_number token of Inl e \<Rightarrow> Some (Inl e) | Inr v \<Rightarrow> Some (Inr (v, t)))"
  by (subst parse.simps) simp

lemma parse_Value_dictionary:
  "parse cap (Value_of K_dictionary token) t = parse cap Call_dictionary t"
  by (subst parse.simps) simp

lemma parse_Value_list:
  "parse cap (Value_of K_list token) t = parse cap Call_list t"
  by (subst parse.simps) simp


lemma dictionary_key:
  assumes "kind_of (tok_type token) = Some k" and "sinistra = []" and "\<not> b"
  shows "parse cap (Loop_dictionary j token sinistra b primo virgola) t =
     and_then (Some (get_token cap t)) (\<lambda>(token', t2).
       parse cap (Loop_dictionary j token' (tok_value token) b primo virgola) t2)"
  using assms kind_of_not_close [OF assms(1)] by (subst parse.simps) simp

lemma dictionary_colon:
  assumes "tok_type token = DUE_PUNTI" and "sinistra \<noteq> []" and "\<not> b"
  shows "parse cap (Loop_dictionary j token sinistra b primo virgola) t =
     and_then (Some (get_token cap t)) (\<lambda>(token', t2).
       parse cap (Loop_dictionary j token' sinistra True primo virgola) t2)"
  using assms by (subst parse.simps) simp


lemma dictionary_value:
  assumes "kind_of (tok_type token) = Some k" and "sinistra \<noteq> []" and "b"
    and "(primo \<and> \<not> virgola) \<or> (\<not> primo \<and> virgola)"
  shows "parse cap (Loop_dictionary j token sinistra b primo virgola) t =
     and_then (parse cap (Value_of k token) t) (\<lambda>(v, t1).
       case insert_member (sinistra, v) j of
         Inl e \<Rightarrow> Some (Inl e)
       | Inr j1 \<Rightarrow>
           and_then (Some (get_token cap t1)) (\<lambda>(token', t2).
             parse cap (Loop_dictionary j1 token' sinistra False False False) t2))"
proof -
  consider (first) "primo" "\<not> virgola" | (later) "\<not> primo" "virgola"
    using assms by auto
  then show ?thesis
  proof cases
    case first
    then show ?thesis
      using assms kind_of_not_close [OF assms(1)]
      by (subst parse.simps)
         (auto simp: and_then_def split: Option.bind_splits sum.splits)
  next
    case later
    then show ?thesis
      using assms kind_of_not_close [OF assms(1)]
      by (subst parse.simps)
         (auto simp: and_then_def split: Option.bind_splits sum.splits)
  qed
qed

lemma list_close:
  "tok_type token = QUADRA_CHIUSA \<Longrightarrow>
   parse cap (Loop_list j token virgola primo) t = Some (Inr (j, t))"
  by (subst parse.simps) simp

lemma list_comma:
  assumes "tok_type token = VIRGOLA" and "\<not> virgola"
  shows "parse cap (Loop_list j token virgola primo) t =
     and_then (Some (get_token cap t)) (\<lambda>(token', t2).
       parse cap (Loop_list j token' True primo) t2)"
  using assms by (subst parse.simps) simp

lemma list_value:
  assumes "kind_of (tok_type token) = Some k"
    and "(primo \<and> \<not> virgola) \<or> (\<not> primo \<and> virgola)"
  shows "parse cap (Loop_list j token virgola primo) t =
     and_then (parse cap (Value_of k token) t) (\<lambda>(v, t1).
       case push_back v j of
         Inl e \<Rightarrow> Some (Inl e)
       | Inr j1 \<Rightarrow>
           and_then (Some (get_token cap t1)) (\<lambda>(token', t2).
             parse cap (Loop_list j1 token' False False) t2))"
proof -
  consider (first) "primo" "\<not> virgola" | (later) "\<not> primo" "virgola"
    using assms by auto
  then show ?thesis
  proof cases
    case first
    then show ?thesis
      using assms kind_of_not_close [OF assms(1)]
      by (subst parse.simps)
         (auto simp: and_then_def split: Option.bind_splits sum.splits)
  next
    case later
    then show ?thesis
      using assms kind_of_not_close [OF assms(1)]
      by (subst parse.simps)
         (auto simp: and_then_def split: Option.bind_splits sum.splits)
  qed
qed

lemma document_round:
  "parse cap (Document rhs) t =
     and_then (Some (get_token cap t)) (\<lambda>(token, t1).
       case kind_of (tok_type token) of
         Some k \<Rightarrow>
           and_then (parse cap (Value_of k token) t1) (\<lambda>(v, t2).
             parse cap (Document (move_assign rhs v)) t2)
       | None \<Rightarrow>
           if tok_type token = FINE_INPUT then Some (Inr (rhs, t1))
           else Some (Inl (json_exception ''formato json non valiod'')))"
  by (subst parse.simps) simp

lemma not_numeric_delimiters:
  "\<not> numeric (CHR '','')" "\<not> numeric (CHR ''}'')" "\<not> numeric (CHR '']'')"
  by (simp_all add: numeric_def)






lemma istream_of_buf: "istream_of txt = (istream_of [])\<lparr>buf := txt\<rparr>" "good (istream_of [])"
  by (simp_all add: istream_of_def good_def)





lemma get_token_number_delimited:
  assumes "good s" and "number_text ds" and "delimited r"
  shows "\<exists>t1. get_token cap \<lparr>inp = s\<lparr>buf := ds @ r\<rparr>, curr_char = cc\<rparr>
           = Inr (\<lparr>tok_value = ds, tok_type = NUMBER\<rparr>, t1)"
proof (cases r)
  case Nil
  then show ?thesis using get_token_number_to_end [OF assms(1,2), of cap cc] by simp
next
  case (Cons c r')
  then have "\<not> numeric c" "c \<noteq> CHR 0x00" using assms(3) by (simp_all add: delimited_def)
  then show ?thesis using get_token_number [OF assms(1,2), of c cap r' cc] Cons by simp
qed

lemma value_of_number_throws:
  assumes "stod (tok_value token) = Inl e"
  shows "parse cap (Value_of K_number token) t = Some (Inl e)"
  using assms by (simp add: parse_Value_number get_json_number_def)

lemma set_list_new: "set_list json_new = Impl Null Null Null (Live []) Null"
  by (simp add: set_list_def json_new_def release_def is_number_def is_bool_def is_string_def
      is_list_def is_dictionary_def)

text \<open>A value that throws, behind any number of opening lists and dictionaries.\<close>

lemma nested_value_throws:
  assumes "good s" and "number_text ds" and "stod ds = Inl e" and "delimited r"
  shows "\<forall>f \<in> set fs. frame_ok cap f \<Longrightarrow>
     \<exists>token t1 k. get_token cap \<lparr>inp = s\<lparr>buf := frames_text fs @ ds @ r\<rparr>, curr_char = cc\<rparr>
                     = Inr (token, t1)
       \<and> kind_of (tok_type token) = Some k
       \<and> parse cap (Value_of k token) t1 = Some (Inl e)"
proof (induction fs arbitrary: cc)
  case Nil
  obtain t1 where "get_token cap \<lparr>inp = s\<lparr>buf := ds @ r\<rparr>, curr_char = cc\<rparr>
           = Inr (\<lparr>tok_value = ds, tok_type = NUMBER\<rparr>, t1)"
    using get_token_number_delimited [OF assms(1,2,4)] by blast
  then show ?case
    using value_of_number_throws [of "\<lparr>tok_value = ds, tok_type = NUMBER\<rparr>" e cap t1] assms(3)
    by (simp add: frames_text_def)
next
  case (Cons f fs)
  let ?rest = "frames_text fs @ ds @ r"
  have ok: "frame_ok cap f" "\<forall>f \<in> set fs. frame_ok cap f" using Cons.prems by simp_all
  show ?case
  proof (cases f)
    case In_list
    let ?t = "\<lparr>inp = s\<lparr>buf := ?rest\<rparr>, curr_char = CHR ''[''\<rparr>"
    obtain token t1 k where in1: "get_token cap ?t = Inr (token, t1)"
      "kind_of (tok_type token) = Some k" "parse cap (Value_of k token) t1 = Some (Inl e)"
      using Cons.IH [OF ok(2), of "CHR ''[''"] by blast
    have "parse cap Call_list ?t = Some (Inl e)"
      using in1 list_value [of token k True False cap "set_list json_new" t1]
      by (simp add: parse_Call_list)
    then have "parse cap (Value_of K_list \<lparr>tok_value = [], tok_type = QUADRA_APERTA\<rparr>) ?t = Some (Inl e)"
      by (simp add: parse_Value_list)
    then show ?thesis
      using get_token_quadra_aperta [OF assms(1), of cap ?rest cc]
      by (simp add: In_list frames_text_def)
  next
    case (In_dictionary key)
    have key: "key \<noteq> []" "CHR 0x22 \<notin> set key" "length key \<le> cap"
      using ok(1) In_dictionary by simp_all
    let ?j = "set_dictionary json_new"
    let ?t0 = "\<lparr>inp = s\<lparr>buf := CHR 0x22 # key @ CHR 0x22 # CHR '':'' # ?rest\<rparr>, curr_char = CHR ''{''\<rparr>"
    let ?t1 = "\<lparr>inp = s\<lparr>buf := CHR '':'' # ?rest\<rparr>, curr_char = CHR 0x22\<rparr>"
    let ?t2 = "\<lparr>inp = s\<lparr>buf := ?rest\<rparr>, curr_char = CHR '':''\<rparr>"
    obtain token t3 k where in1: "get_token cap ?t2 = Inr (token, t3)"
      "kind_of (tok_type token) = Some k" "parse cap (Value_of k token) t3 = Some (Inl e)"
      using Cons.IH [OF ok(2), of "CHR '':''"] by blast
    have 3: "parse cap (Loop_dictionary ?j token key True True False) t3 = Some (Inl e)"
      using in1 key(1) dictionary_value [of token k key True True False cap ?j t3] by simp
    have 2: "parse cap (Loop_dictionary ?j \<lparr>tok_value = [], tok_type = DUE_PUNTI\<rparr> key False True False) ?t2
           = Some (Inl e)"
      using dictionary_colon [of "\<lparr>tok_value = [], tok_type = DUE_PUNTI\<rparr>" key False cap ?j True False ?t2]
        in1(1) 3 key(1)
      by simp
    have 1: "parse cap (Loop_dictionary ?j \<lparr>tok_value = key, tok_type = STRING\<rparr> [] False True False) ?t1
           = Some (Inl e)"
      using dictionary_key [of "\<lparr>tok_value = key, tok_type = STRING\<rparr>" K_string "[]" False cap ?j True False ?t1]
        get_token_due_punti [OF assms(1), of cap ?rest "CHR 0x22"] 2
      by simp
    have "parse cap Call_dictionary ?t0 = Some (Inl e)"
      using get_token_string [OF assms(1) key(2,3), of "CHR '':'' # ?rest" "CHR ''{''"] 1
      by (simp add: parse_Call_dictionary)
    then have "parse cap (Value_of K_dictionary \<lparr>tok_value = [], tok_type = GRAFFA_APERTA\<rparr>) ?t0 = Some (Inl e)"
      by (simp add: parse_Value_dictionary)
    then show ?thesis
      using get_token_graffa_aperta [OF assms(1), of cap "CHR 0x22 # key @ CHR 0x22 # CHR '':'' # ?rest" cc]
      by (simp add: In_dictionary frames_text_def)
  qed
qed

lemma read_json_nested_throws:
  assumes "\<forall>f \<in> set fs. frame_ok cap f" and "number_text ds" and "stod ds = Inl e" and "delimited r"
  shows "read_json cap (istream_of (frames_text fs @ ds @ r)) rhs = Some (Inl e)"
proof -
  obtain token t1 k where in1:
    "get_token cap \<lparr>inp = (istream_of [])\<lparr>buf := frames_text fs @ ds @ r\<rparr>, curr_char = CHR 0x20\<rparr>
       = Inr (token, t1)"
    "kind_of (tok_type token) = Some k" "parse cap (Value_of k token) t1 = Some (Inl e)"
    using nested_value_throws [OF istream_of_buf(2) assms(2,3,4,1), of "CHR 0x20"] by blast
  have "parse cap (Document rhs) (Tokenizer_on (istream_of (frames_text fs @ ds @ r))) = Some (Inl e)"
    using in1
    by (subst document_round)
       (simp add: Tokenizer_on_def istream_of_buf(1) [of "frames_text fs @ ds @ r"])
  then show ?thesis by (simp add: read_json_def)
qed

section \<open>The claims about the parser\<close>



text \<open>
  C7. Reading \<open>{"a" 1}\<close>, \<open>[1,,2]\<close> or \<open>[1 2]\<close> throws a \<open>json_exception\<close>, whatever the
  value read into: the call returns no value and assigns nothing.
\<close>

theorem C7_grammar_errors:
  \<open>read_json (Suc cap) (istream_of ''{"a" 1}'') rhs
       = Some (Inl (json_exception ''due punti mancanti''))
   \<and> read_json cap (istream_of ''[1,,2]'') rhs
       = Some (Inl (json_exception ''hai ricevuto una virgola non necessaria''))
   \<and> read_json cap (istream_of ''[1 2]'') rhs = Some (Inl (json_exception ''problema virgola''))\<close>
proof (intro conjI)
  show \<open>read_json (Suc cap) (istream_of ''{"a" 1}'') rhs
       = Some (Inl (json_exception ''due punti mancanti''))\<close>
    by (simp add: read_json_def parse.simps lex_eval json_eval)
  show \<open>read_json cap (istream_of ''[1,,2]'') rhs
       = Some (Inl (json_exception ''hai ricevuto una virgola non necessaria''))\<close>
    by (simp add: read_json_def parse.simps lex_eval json_eval)
  show \<open>read_json cap (istream_of ''[1 2]'') rhs = Some (Inl (json_exception ''problema virgola''))\<close>
    by (simp add: read_json_def parse.simps lex_eval json_eval)
qed

text \<open>
  C6, as the code has it. A number token whose text does not convert makes \<open>std::stod\<close>
  throw \<open>std::invalid_argument\<close> or \<open>std::out_of_range\<close>, which is no \<open>json_exception\<close>.
  \<open>get_json_number\<close> has no handler, and neither has any caller: an exception thrown by the
  reading of a value ends the document loop, the list loop and the dictionary loop at the
  place where a value is read, whatever their state; so the text of such a number, standing
  as a value behind any number of opening lists and of opening dictionaries with key and
  colon, makes \<open>operator>>\<close> end with the exception of the conversion. In the place of a
  key the token is not converted: its text is taken as the key.
\<close>

theorem C6_conversion_error_escapes:
  assumes "tok_type token = NUMBER" and "stod (tok_value token) = Inl e"
  shows "(e = std_invalid_argument \<or> e = std_out_of_range) \<and> \<not> is_json_exception e
     \<and> get_json_number token = Inl e
     \<and> parse cap (Value_of K_number token) t = Some (Inl e)
     \<and> (\<forall>k tok t1. kind_of (tok_type tok) = Some k \<and> parse cap (Value_of k tok) t1 = Some (Inl e)
          \<longrightarrow> (\<forall>t0 rhs. get_token cap t0 = Inr (tok, t1)
                   \<longrightarrow> parse cap (Document rhs) t0 = Some (Inl e))
            \<and> (\<forall>j primo virgola. (primo \<and> \<not> virgola) \<or> (\<not> primo \<and> virgola)
                   \<longrightarrow> parse cap (Loop_list j tok virgola primo) t1 = Some (Inl e))
            \<and> (\<forall>j (sinistra :: string) primo virgola.
                   sinistra \<noteq> [] \<and> ((primo \<and> \<not> virgola) \<or> (\<not> primo \<and> virgola))
                   \<longrightarrow> parse cap (Loop_dictionary j tok sinistra True primo virgola) t1
                         = Some (Inl e)))
     \<and> (\<forall>fs r rhs. number_text (tok_value token) \<and> delimited r \<and> (\<forall>f \<in> set fs. frame_ok cap f)
          \<longrightarrow> read_json cap (istream_of (frames_text fs @ tok_value token @ r)) rhs
                = Some (Inl e))
     \<and> parse cap (Loop_dictionary j token [] False primo virgola) t
         = and_then (Some (get_token cap t)) (\<lambda>(token', t2).
             parse cap (Loop_dictionary j token' (tok_value token) False primo virgola) t2)"
proof (intro conjI allI impI)
  show e: "e = std_invalid_argument \<or> e = std_out_of_range" using assms(2) by (rule stod_errors)
  then show "\<not> is_json_exception e" by auto
  show "get_json_number token = Inl e" using assms(2) by (simp add: get_json_number_def)
  show "parse cap (Value_of K_number token) t = Some (Inl e)"
    using assms(2) by (rule value_of_number_throws)
next
  fix k tok t1 t0 rhs
  assume a: "kind_of (tok_type tok) = Some k \<and> parse cap (Value_of k tok) t1 = Some (Inl e)"
    and g: "get_token cap t0 = Inr (tok, t1)"
  show "parse cap (Document rhs) t0 = Some (Inl e)"
    using a g by (subst document_round) simp
next
  fix k tok t1 j primo virgola
  assume a: "kind_of (tok_type tok) = Some k \<and> parse cap (Value_of k tok) t1 = Some (Inl e)"
    and c: "(primo \<and> \<not> virgola) \<or> (\<not> primo \<and> virgola)"
  show "parse cap (Loop_list j tok virgola primo) t1 = Some (Inl e)"
    using a list_value [of tok k primo virgola cap j t1] c by simp
next
  fix k tok t1 j primo virgola and sinistra :: string
  assume a: "kind_of (tok_type tok) = Some k \<and> parse cap (Value_of k tok) t1 = Some (Inl e)"
    and c: "sinistra \<noteq> [] \<and> ((primo \<and> \<not> virgola) \<or> (\<not> primo \<and> virgola))"
  show "parse cap (Loop_dictionary j tok sinistra True primo virgola) t1 = Some (Inl e)"
    using a dictionary_value [of tok k sinistra True primo virgola cap j t1] c by simp
next
  fix fs r rhs
  assume a: "number_text (tok_value token) \<and> delimited r \<and> (\<forall>f \<in> set fs. frame_ok cap f)"
  show "read_json cap (istream_of (frames_text fs @ tok_value token @ r)) rhs = Some (Inl e)"
    using a read_json_nested_throws [of fs cap "tok_value token" e r rhs] assms(2) by simp
next
  show "parse cap (Loop_dictionary j token [] False primo virgola) t
         = and_then (Some (get_token cap t)) (\<lambda>(token', t2).
             parse cap (Loop_dictionary j token' (tok_value token) False primo virgola) t2)"
    using dictionary_key [of token K_number "[]" False cap j primo virgola t] assms(1) by simp
qed

theorem C6_conversion_error_escapes_witness:
  \<open>get_json_number \<lparr>tok_value = ''-'', tok_type = NUMBER\<rparr> = Inl std_invalid_argument
   \<and> \<not> is_json_exception std_invalid_argument
   \<and> read_json 8 (istream_of ''[{"k":[-,1]}]'') json_new = Some (Inl std_invalid_argument)\<close>
proof -
  have a: "tok_type \<lparr>tok_value = ''-'', tok_type = NUMBER\<rparr> = NUMBER"
    "stod (tok_value \<lparr>tok_value = ''-'', tok_type = NUMBER\<rparr>) = Inl std_invalid_argument"
    by (simp_all add: stod_minus)
  have b: "number_text ''-''" "delimited '',1]}]''"
    "\<forall>f \<in> set [In_list, In_dictionary ''k'', In_list]. frame_ok 8 f"
    by (simp_all add: number_text_def delimited_def numeric_def)
  have c: \<open>frames_text [In_list, In_dictionary ''k'', In_list] @ ''-'' @ '',1]}]'' = ''[{"k":[-,1]}]''\<close>
    by (simp add: frames_text_def)
  note th = C6_conversion_error_escapes [OF a, where cap = 8 and j = json_new and primo = True
      and virgola = False and t = "Tokenizer_on (istream_of [])"]
  have n: "\<forall>fs r rhs. number_text ''-'' \<and> delimited r \<and> (\<forall>f \<in> set fs. frame_ok 8 f)
          \<longrightarrow> read_json 8 (istream_of (frames_text fs @ ''-'' @ r)) rhs
                = Some (Inl std_invalid_argument)"
    using th by simp
  have "read_json 8 (istream_of (frames_text [In_list, In_dictionary ''k'', In_list] @ ''-'' @ '',1]}]''))
          json_new = Some (Inl std_invalid_argument)"
    using n b by blast
  then show ?thesis using th c by simp
qed

text \<open>
  C6 as the specification states it fails for the text \<open>-\<close>: the lexer makes a number token
  of it, and reading it throws \<open>std::invalid_argument\<close>, which is no \<open>json_exception\<close>.
\<close>

theorem C6_counterexample:
  "get_token 1024 (Tokenizer_on (istream_of ''-''))
     = Inr (\<lparr>tok_value = ''-'', tok_type = NUMBER\<rparr>,
            \<lparr>inp = \<lparr>buf = [], skipws = True, eofbit = True, failbit = True\<rparr>,
             curr_char = CHR 0xFF\<rparr>)
   \<and> read_json 1024 (istream_of ''-'') json_new = Some (Inl std_invalid_argument)
   \<and> is_json_exception std_invalid_argument = False"
  by (simp add: read_json_def parse.simps lex_eval json_eval)

section \<open>Writing and reading back\<close>

lemma get_token_failed:
  assumes "\<not> good s"
  shows "get_token cap \<lparr>inp = s, curr_char = cc\<rparr>
           = Inr (\<lparr>tok_value = [], tok_type = FINE_INPUT\<rparr>,
                  \<lparr>inp = s\<lparr>failbit := True\<rparr>, curr_char = cc\<rparr>)"
  using assms by (simp add: get_token_def read_curr_def extract_char_def sentry_def)

lemma read_json_number_text:
  assumes "number_text tx" and "stod tx = Inr y"
  shows "read_json cap (istream_of tx) json_new
           = Some (Inr (set_number y json_new,
                        \<lparr>buf = [], skipws = True, eofbit = True, failbit = True\<rparr>))"
proof -
  let ?s = "istream_of []"
  let ?tok = "\<lparr>tok_value = tx, tok_type = NUMBER\<rparr>"
  let ?s1 = "?s\<lparr>buf := [], eofbit := True, failbit := True\<rparr>"
  let ?t1 = "\<lparr>inp = ?s1, curr_char = CHR 0xFF\<rparr>"
  have tk1: "get_token cap (Tokenizer_on (istream_of tx)) = Inr (?tok, ?t1)"
    using get_token_number_to_end [OF istream_of_buf(2) assms(1), of cap "CHR 0x20"]
    by (simp add: Tokenizer_on_def istream_of_buf(1) [of tx])
  have tk2: "get_token cap ?t1 = Inr (\<lparr>tok_value = [], tok_type = FINE_INPUT\<rparr>, ?t1)"
    using get_token_failed [of ?s1 cap "CHR 0xFF"] by (simp add: good_def)
  have v: "parse cap (Value_of K_number ?tok) ?t1 = Some (Inr (set_number y json_new, ?t1))"
    by (subst parse.simps) (simp add: get_json_number_def assms(2))
  have m: "move_assign json_new (set_number y json_new) = set_number y json_new"
    by (simp add: json_eval)
  have d2: "parse cap (Document (set_number y json_new)) ?t1 = Some (Inr (set_number y json_new, ?t1))"
    by (subst parse.simps) (simp add: tk2)
  have "parse cap (Document json_new) (Tokenizer_on (istream_of tx))
          = Some (Inr (set_number y json_new, ?t1))"
    by (subst parse.simps) (simp add: tk1 v m d2)
  then show ?thesis by (simp add: read_json_def istream_of_def)
qed

text \<open>
  C3, as the code has it. A value that holds one bool, or nothing, is read back from its
  own text as it was; so is a number whose rendering is made of digits, minus signs and
  points, starts with a digit or a minus sign, and converts back to the number. Strings,
  which are written as their raw characters, are left out.
\<close>

theorem C3_leaf_round_trip:
  "round_trip cap fmt (set_bool x json_new) = Some (Inr (set_bool x json_new))
   \<and> round_trip cap fmt (set_null json_new) = Some (Inr (set_null json_new))
   \<and> (fmt y \<noteq> [] \<and> (hd (fmt y) = CHR ''-'' \<or> is_digit (hd (fmt y)))
        \<and> (\<forall>c \<in> set (fmt y). numeric c) \<and> stod (fmt y) = Inr y
      \<longrightarrow> round_trip cap fmt (set_number y json_new) = Some (Inr (set_number y json_new)))"
proof (intro conjI impI)
  show "round_trip cap fmt (set_bool x json_new) = Some (Inr (set_bool x json_new))"
    by (cases x) (simp_all add: round_trip_def read_json_def parse.simps lex_eval json_eval)
  show "round_trip cap fmt (set_null json_new) = Some (Inr (set_null json_new))"
    by (simp add: round_trip_def read_json_def parse.simps lex_eval json_eval)
next
  assume a: "fmt y \<noteq> [] \<and> (hd (fmt y) = CHR ''-'' \<or> is_digit (hd (fmt y)))
        \<and> (\<forall>c \<in> set (fmt y). numeric c) \<and> stod (fmt y) = Inr y"
  have w: "write_json fmt (set_number y json_new) = Inr (fmt y)"
    by (simp add: json_eval)
  have n: "number_text (fmt y)" using a by (simp add: number_text_def)
  show "round_trip cap fmt (set_number y json_new) = Some (Inr (set_number y json_new))"
    using a read_json_number_text [OF n, of y cap] by (simp add: round_trip_def w)
qed

theorem C3_leaf_round_trip_witness:
  "round_trip 1024 one_digit (set_number 2 json_new) = Some (Inr (set_number 2 json_new))
   \<and> round_trip 1024 one_digit (set_bool True json_new) = Some (Inr (set_bool True json_new))
   \<and> round_trip 1024 one_digit (set_null json_new) = Some (Inr (set_null json_new))"
proof -
  have o: "one_digit 2 = ''2''" by (simp add: one_digit_def)
  have a: "one_digit 2 \<noteq> [] \<and> (hd (one_digit 2) = CHR ''-'' \<or> is_digit (hd (one_digit 2)))
        \<and> (\<forall>c \<in> set (one_digit 2). numeric c) \<and> stod (one_digit 2) = Inr 2"
    by (simp add: o is_digit_def numeric_def stod_2)
  show ?thesis using C3_leaf_round_trip [of 1024 one_digit True 2] a by simp
qed

text \<open>
  C3 as the specification states it fails for a string: the string \<open>true\<close> is written as
  the four characters \<open>true\<close>, which are read back as the bool.
\<close>

theorem C3_counterexample:
  "round_trip 1024 one_digit (set_string ''true'' json_new) = Some (Inr (set_bool True json_new))
   \<and> set_bool True json_new \<noteq> set_string ''true'' json_new
   \<and> is_string (set_bool True json_new) = False"
  by (simp add: round_trip_def read_json_def parse.simps lex_eval json_eval)

end
